theory Spec2Isabelle
  imports Main "HOL-Library.Sublist" "HOL-Library.AList"
begin

section \<open>ddp-dump: the export core of \<^verbatim>\<open>index.js\<close>\<close>

text \<open>
  The development embeds the functions of \<^verbatim>\<open>index.js\<close> that decide where collection
  data goes and when: path templating, the destination mapping, option processing, the
  idle-timeout detector, the subscription and write callbacks.  JavaScript strings are
  \<^typ>\<open>string\<close>, \<^verbatim>\<open>undefined\<close>/\<^verbatim>\<open>null\<close> are \<^const>\<open>None\<close>, arrays are
  lists, and everything the program prints or asks of its collaborators (the DDP client,
  the file system, timers, the process) is recorded as a list of events.
\<close>

subsection \<open>Strings\<close>

text \<open>
  \<^verbatim>\<open>String.prototype.indexOf(p)\<close>: the position of the first occurrence of \<open>p\<close>,
  or \<open>-1\<close>.
\<close>

fun indexOf :: "string \<Rightarrow> string \<Rightarrow> int" where
  "indexOf [] p = (if p = [] then 0 else - 1)"
| "indexOf (x # xs) p =
     (if prefix p (x # xs) then 0
      else (let r = indexOf xs p in if r = - 1 then - 1 else r + 1))"

text \<open>
  \<^verbatim>\<open>util.format(f, name)\<close> of Node.js (\<^verbatim>\<open>lib/util.js\<close>), for a format string and
  one string argument, as \<^verbatim>\<open>formatPath\<close> calls it.  Node replaces every match of
  \<^verbatim>\<open>/%[sdj%]/g\<close>, left to right: \<^verbatim>\<open>%%\<close> becomes \<^verbatim>\<open>%\<close>; the first of
  \<^verbatim>\<open>%s\<close>, \<^verbatim>\<open>%d\<close>, \<^verbatim>\<open>%j\<close> takes the argument (as \<^verbatim>\<open>String(name)\<close>,
  \<^verbatim>\<open>Number(name)\<close>, \<^verbatim>\<open>JSON.stringify(name)\<close>); later ones stay as they are; an
  argument that no placeholder took is appended after a space.

  The texts of \<^verbatim>\<open>Number(name)\<close> and \<^verbatim>\<open>JSON.stringify(name)\<close> are not computed here:
  they are the two fields of a \<open>conversions\<close> record that every function below takes.
\<close>

record conversions =
  number_text :: "string \<Rightarrow> string"
  json_text :: "string \<Rightarrow> string"

text \<open>
  The conversions of a name that is no numeric literal and has no character that JSON
  escapes, such as \<^verbatim>\<open>cats\<close>: \<^verbatim>\<open>Number(name)\<close> prints as \<^verbatim>\<open>NaN\<close>, and
  \<^verbatim>\<open>JSON.stringify(name)\<close> is the name in double quotes.
\<close>

definition plain_name_conversions :: conversions where
  "plain_name_conversions =
     \<lparr>number_text = (\<lambda>n. ''NaN''), json_text = (\<lambda>n. [CHR 0x22] @ n @ [CHR 0x22])\<rparr>"

text \<open>
  \<open>format_scan cv f name unused\<close> is the replaced text together with the flag that the
  argument is still unused.
\<close>

fun format_scan :: "conversions \<Rightarrow> string \<Rightarrow> string \<Rightarrow> bool \<Rightarrow> string \<times> bool" where
  "format_scan cv [] name unused = ([], unused)"
| "format_scan cv [x] name unused = ([x], unused)"
| "format_scan cv (x # y # r) name unused =
     (if x = CHR ''%'' \<and> y = CHR ''%'' then
        (case format_scan cv r name unused of (t, u) \<Rightarrow> (CHR ''%'' # t, u))
      else if x = CHR ''%'' \<and> (y = CHR ''s'' \<or> y = CHR ''d'' \<or> y = CHR ''j'') then
        (if unused then
           (case format_scan cv r name False of (t, u) \<Rightarrow>
              ((if y = CHR ''s'' then name
                else if y = CHR ''d'' then number_text cv name
                else json_text cv name) @ t, u))
         else
           (case format_scan cv r name unused of (t, u) \<Rightarrow> (x # y # t, u)))
      else
        (case format_scan cv (y # r) name unused of (t, u) \<Rightarrow> (x # t, u)))"

definition util_format :: "conversions \<Rightarrow> string \<Rightarrow> string \<Rightarrow> string" where
  "util_format cv f name =
     (case format_scan cv f name True of
        (t, unused) \<Rightarrow> if unused then t @ '' '' @ name else t)"

subsection \<open>Path templating\<close>

text \<open>
  \<^verbatim>\<open>formatPath(filename, name)\<close>, lines 209-217.  \<open>None\<close> is an \<^verbatim>\<open>undefined\<close>
  filename.  The test before formatting is for the character \<^verbatim>\<open>%\<close>, not for
  \<^verbatim>\<open>%s\<close>.
\<close>

definition formatPath :: "conversions \<Rightarrow> string option \<Rightarrow> string \<Rightarrow> string" where
  "formatPath cv filename name =
     (let filename = (case filename of None \<Rightarrow> ''%s.json''
                      | Some f \<Rightarrow> if f = '''' then ''%s.json'' else f)
      in if indexOf filename ''%'' \<noteq> - 1 then util_format cv filename name else filename)"

subsection \<open>What the program prints and asks of its collaborators\<close>

text \<open>
  A collection is its record mapping, an association list from record id to record; the
  live store \<^verbatim>\<open>ddp.collections\<close> is an association list from collection name to
  collection, in the order of \<^verbatim>\<open>Object.keys\<close>.  Only own properties are modelled.
\<close>

type_synonym 'v records = "(string \<times> 'v) list"
type_synonym 'v store = "(string \<times> 'v records) list"

text \<open>
  One constructor for each text the program prints; the arguments are the values put
  into the format string.
\<close>

datatype 'v message =
    UnknownProtocol "string option"  \<comment> \<open>\<^verbatim>\<open>Error: Unknown protocol "%s"\<close>\<close>
  | OnlyOneOutputWithMarker  \<comment> \<open>\<^verbatim>\<open>Error: Only one output option is supported when using "%s".\<close>\<close>
  | MoreOutputsThanCollections  \<comment> \<open>\<^verbatim>\<open>Error: More output files then collections given.\<close>\<close>
  | NoCollectionGiven  \<comment> \<open>\<^verbatim>\<open>Error: Please specify at least one collection\<close> and the next line\<close>
  | Usage  \<comment> \<open>the line printed by \<^verbatim>\<open>usage()\<close>\<close>
  | OptionList  \<comment> \<open>the lines printed by \<^verbatim>\<open>printOptions()\<close>\<close>
  | TryHelp
  | Version
  | ConnectingTo  \<comment> \<open>\<^verbatim>\<open>Connecting to: %s (DDP Version %s)%s\<close>\<close>
  | ConnectionFailed  \<comment> \<open>\<^verbatim>\<open>Error: DDP connection failed\<close>\<close>
  | ConnectionSuccessful  \<comment> \<open>\<^verbatim>\<open>DDP connection was successful\<close>\<close>
  | Subscribing string  \<comment> \<open>\<^verbatim>\<open>Subscribing to collection: %s\<close>\<close>
  | SubscribeFailed string string  \<comment> \<open>\<^verbatim>\<open>Error: Could not subscribe to collection "%s":\n%s\<close>\<close>
  | SubscribeSuccessful string nat  \<comment> \<open>\<^verbatim>\<open>Subscription of "%s" was successful (%s rows)\<close>\<close>
  | UnknownCollection string nat  \<comment> \<open>\<^verbatim>\<open>Received unknown collection "%s" (%s rows)\<close>\<close>
  | NoCollectionsReceived  \<comment> \<open>\<^verbatim>\<open>No collections received\<close>\<close>
  | WritingFile string  \<comment> \<open>\<^verbatim>\<open>Writing data to file "%s"\<close>\<close>
  | SavingFailed  \<comment> \<open>\<^verbatim>\<open>An error occured during saving of files:\<close>\<close>
  | WriteError string  \<comment> \<open>the error object of a failed write, printed by \<^verbatim>\<open>log(err)\<close>\<close>
  | Json "'v store" bool  \<comment> \<open>\<^verbatim>\<open>stringify(data, compress)\<close>\<close>
  | ReceivedMessage string  \<comment> \<open>\<^verbatim>\<open>Received DDP message: \<close> and the message\<close>
  | ConnectionClosed  \<comment> \<open>\<^verbatim>\<open>Connection closed: %s %s\<close>\<close>
  | SocketError string  \<comment> \<open>the \<^verbatim>\<open>message\<close> of a socket error\<close>

datatype 'v event =
    ConsoleLog "'v message"  \<comment> \<open>\<^verbatim>\<open>log(...)\<close>, that is \<^verbatim>\<open>console.log\<close>\<close>
  | ConsoleError "'v message"  \<comment> \<open>\<^verbatim>\<open>error(...)\<close>, that is \<^verbatim>\<open>console.error\<close>\<close>
  | ProcessExit nat  \<comment> \<open>\<^verbatim>\<open>process.exit(n)\<close>\<close>
  | DdpConnect
  | DdpSubscribe string
  | DdpClose
  | FsWriteFile string "'v store" bool  \<comment> \<open>\<^verbatim>\<open>fs.writeFile(path, stringify(data, compress), cb)\<close>\<close>
  | SetTimeout int  \<comment> \<open>\<^verbatim>\<open>setTimeout\<close> of the idle check, with its delay\<close>

datatype js_error = TypeError

subsection \<open>Options\<close>

text \<open>
  The object that \<^verbatim>\<open>nopt\<close> returns, with \<^verbatim>\<open>colls\<close> set from \<^verbatim>\<open>argv.remain\<close>
  (line 351).  \<open>url_protocol\<close> is \<open>None\<close> when the \<^verbatim>\<open>url\<close> option is absent or
  empty, and otherwise the \<^verbatim>\<open>protocol\<close> of \<^verbatim>\<open>url.parse(o.url)\<close>, itself \<open>None\<close>
  for \<^verbatim>\<open>null\<close>.  An absent \<^verbatim>\<open>timeout\<close> is \<open>0\<close> (the code tests \<^verbatim>\<open>!o.timeout\<close>,
  which does not tell them apart) and an absent \<^verbatim>\<open>output\<close> (here \<open>output_opt\<close>) is \<open>[]\<close> (\<^verbatim>\<open>nopt\<close>
  gives an array with an entry for every \<^verbatim>\<open>-o\<close>).  Host, port, SSL, DDP version and
  SockJS are handed to the DDP client and are left out.
\<close>

record cli =
  url_protocol :: "string option option"
  output_opt :: "string list"
  all :: bool
  timeout :: int
  compress :: bool
  verbose :: bool
  debug :: bool
  version :: bool
  help_opt :: bool
  colls :: "string list"

record options = cli +
  files :: "string list"
  saveToFile :: bool
  mergeCollections :: bool

definition defaultTimeout :: int where
  "defaultTimeout = 800"

text \<open>
  \<^verbatim>\<open>info\<close>, lines 106-108, with the replacement of lines 335-338: nothing unless
  \<^verbatim>\<open>verbose\<close> is set.
\<close>

definition info :: "'a cli_scheme \<Rightarrow> 'v message \<Rightarrow> 'v event list" where
  "info opts m = (if verbose opts then [ConsoleLog m] else [])"

text \<open>
  \<^verbatim>\<open>processCliOptions\<close>, lines 110-172.  \<open>Inl evs\<close>: the process printed \<open>evs\<close>
  and ended in \<^verbatim>\<open>process.exit\<close>.
\<close>

definition processCliOptions :: "cli \<Rightarrow> 'v event list + options" where
  "processCliOptions opts =
     (case (case url_protocol opts of None \<Rightarrow> None
            | Some p \<Rightarrow> if p \<noteq> Some ''wss:'' \<and> p \<noteq> Some ''ws:'' then Some p else None) of
        Some p \<Rightarrow> Inl [ConsoleError (UnknownProtocol p), ProcessExit 1]
      | None \<Rightarrow>
        let opts = opts\<lparr>timeout :=
                     (if timeout opts = 0 then (if all opts then defaultTimeout else 0)
                      else timeout opts)\<rparr>;
            files = output_opt opts;
            saveToFile = (length files > 0)
        in
          if saveToFile then
            if indexOf (files ! 0) ''%s'' \<noteq> - 1 then
              if length files > 1 then
                Inl [ConsoleError OnlyOneOutputWithMarker, ProcessExit 1]
              else
                Inr (cli.extend opts
                  \<lparr>files = (if length (colls opts) > 0
                            then map (\<lambda>c. files ! 0) (colls opts) else files),
                   saveToFile = saveToFile, mergeCollections = False\<rparr>)
            else if length files = length (colls opts) then
              Inr (cli.extend opts
                \<lparr>files = files, saveToFile = saveToFile, mergeCollections = False\<rparr>)
            else if length files > 1 then
              Inl [ConsoleError MoreOutputsThanCollections, ProcessExit 1]
            else
              Inr (cli.extend opts
                \<lparr>files = files, saveToFile = saveToFile, mergeCollections = True\<rparr>)
          else
            Inr (cli.extend opts
              \<lparr>files = files, saveToFile = saveToFile, mergeCollections = True\<rparr>))"

subsection \<open>Destination mapping\<close>

text \<open>An array read \<^verbatim>\<open>xs[i]\<close>: \<^verbatim>\<open>undefined\<close> out of range.\<close>

definition at :: "'a list \<Rightarrow> nat \<Rightarrow> 'a option" where
  "at xs i = (if i < length xs then Some (xs ! i) else None)"

text \<open>\<^verbatim>\<open>generateFilename\<close>, lines 219-229; \<open>None\<close> is \<^verbatim>\<open>null\<close>, the console.\<close>

definition generateFilename :: "conversions \<Rightarrow> options \<Rightarrow> string \<Rightarrow> nat \<Rightarrow> string option" where
  "generateFilename cv opts collName i =
     (if saveToFile opts then
        Some (formatPath cv
          (if mergeCollections opts then at (files opts) 0 else at (files opts) i) collName)
      else None)"

text \<open>
  The mapping is a plain object created by \<^verbatim>\<open>{}\<close>: an association list in insertion
  order.  A path used as a property key is turned into a string, \<^verbatim>\<open>null\<close> into
  \<^verbatim>\<open>"null"\<close>.  A read of a key that is no own property finds the properties that
  every object inherits from \<^verbatim>\<open>Object.prototype\<close>.  (\<^verbatim>\<open>Object.keys\<close> lists keys that
  are array indices first; this reordering of destinations is not modelled.)
\<close>

type_synonym mapping = "(string \<times> string list) list"

definition property_key :: "string option \<Rightarrow> string" where
  "property_key path = (case path of None \<Rightarrow> ''null'' | Some p \<Rightarrow> p)"

definition inherited_properties :: "string list" where
  "inherited_properties =
     [''constructor'', ''toString'', ''toLocaleString'', ''valueOf'', ''hasOwnProperty'',
      ''isPrototypeOf'', ''propertyIsEnumerable'', ''__proto__'', ''__defineGetter__'',
      ''__defineSetter__'', ''__lookupGetter__'', ''__lookupSetter__'']"

text \<open>
  \<^verbatim>\<open>addPathToMapping\<close>, lines 233-240.  \<^verbatim>\<open>!mapping[path]\<close> holds when the key is
  neither an own property (its value is an array, which is truthy) nor an inherited one.
  For an inherited key no array is created, and \<^verbatim>\<open>mapping[path].push\<close> is not a
  function: the call throws a \<^verbatim>\<open>TypeError\<close>.
\<close>

definition addPathToMapping :: "mapping \<Rightarrow> string option \<Rightarrow> string \<Rightarrow> js_error + mapping" where
  "addPathToMapping mapping path collName =
     (let k = property_key path;
          mapping = (if map_of mapping k = None \<and> k \<notin> set inherited_properties
                     then AList.update k [] mapping else mapping)
      in case map_of mapping k of
           None \<Rightarrow> Inl TypeError
         | Some cs \<Rightarrow> Inr (AList.update k (cs @ [collName]) mapping))"

text \<open>
  The \<^verbatim>\<open>reduce\<close> of lines 365-369 over \<^verbatim>\<open>options.colls\<close>, from position \<open>i\<close> on.
\<close>

fun reduce_colls ::
  "conversions \<Rightarrow> options \<Rightarrow> mapping \<Rightarrow> nat \<Rightarrow> string list \<Rightarrow> js_error + mapping" where
  "reduce_colls cv opts mapping i [] = Inr mapping"
| "reduce_colls cv opts mapping i (collName # rest) =
     (case addPathToMapping mapping (generateFilename cv opts collName i) collName of
        Inl e \<Rightarrow> Inl e
      | Inr mapping' \<Rightarrow> reduce_colls cv opts mapping' (Suc i) rest)"

definition pathToCollectionMapping :: "conversions \<Rightarrow> options \<Rightarrow> js_error + mapping" where
  "pathToCollectionMapping cv opts = reduce_colls cv opts [] 0 (colls opts)"

text \<open>
  The main application logic up to the connection request, lines 333-396.  The process
  either exits, or dies of the exception thrown while the mapping is built, or goes on
  with its options and its mapping and asks the DDP client to connect.
\<close>

datatype 'v started =
    Exited "'v event list"
  | Uncaught js_error
  | Connecting options mapping "'v event list"

definition startup :: "conversions \<Rightarrow> cli \<Rightarrow> 'v started" where
  "startup cv cli =
     (if version cli then Exited [ConsoleLog Version, ProcessExit 0]
      else if help_opt cli then Exited [ConsoleLog Usage, ConsoleLog OptionList, ProcessExit 0]
      else if length (colls cli) = 0 \<and> \<not> all cli then
        Exited [ConsoleError NoCollectionGiven, ConsoleLog Usage, ConsoleLog TryHelp,
                ProcessExit 1]
      else
        case processCliOptions cli of
          Inl evs \<Rightarrow> Exited evs
        | Inr opts \<Rightarrow>
            (case pathToCollectionMapping cv opts of
               Inl e \<Rightarrow> Uncaught e
             | Inr mapping \<Rightarrow> Connecting opts mapping (info opts ConnectingTo @ [DdpConnect])))"

subsection \<open>Late discovery of collections\<close>

text \<open>\<^verbatim>\<open>Object.keys(ddp.collections[name] || {}).length\<close>.\<close>

definition rowCount :: "'v store \<Rightarrow> string \<Rightarrow> nat" where
  "rowCount collections name =
     (case map_of collections name of None \<Rightarrow> 0 | Some rs \<Rightarrow> length rs)"

text \<open>
  The body of the \<^verbatim>\<open>map\<close> callback of \<^verbatim>\<open>receivedLastDDPMessage\<close>, lines 285-293:
  the extension of the mapping by one collection name of the store.  It changes
  \<^verbatim>\<open>options.colls\<close> and the mapping; an exception of \<^verbatim>\<open>addPathToMapping\<close> leaves it.
\<close>

definition discover ::
  "conversions \<Rightarrow> 'v store \<Rightarrow> options \<times> mapping \<Rightarrow> string \<Rightarrow>
   'v event list \<times> (js_error + options \<times> mapping)" where
  "discover cv collections s collName =
     (case s of (opts, mapping) \<Rightarrow>
        if collName \<notin> set (colls opts) then
          (let evs = info opts (UnknownCollection collName (rowCount collections collName))
           in case addPathToMapping mapping (generateFilename cv opts collName 0) collName of
                Inl e \<Rightarrow> (evs, Inl e)
              | Inr mapping' \<Rightarrow>
                  (evs, Inr (opts\<lparr>colls := colls opts @ [collName]\<rparr>, mapping')))
        else ([], Inr (opts, mapping)))"

fun discover_all ::
  "conversions \<Rightarrow> 'v store \<Rightarrow> options \<times> mapping \<Rightarrow> string list \<Rightarrow>
   'v event list \<times> (js_error + options \<times> mapping)" where
  "discover_all cv collections s [] = ([], Inr s)"
| "discover_all cv collections s (collName # rest) =
     (case discover cv collections s collName of
        (evs, Inl e) \<Rightarrow> (evs, Inl e)
      | (evs, Inr s') \<Rightarrow>
          (case discover_all cv collections s' rest of (evs', r) \<Rightarrow> (evs @ evs', r)))"

subsection \<open>Connecting and subscribing\<close>

text \<open>\<^verbatim>\<open>waitForTimeout\<close>, lines 253-262, as the request it makes of the timer.\<close>

definition waitForTimeout :: "options \<Rightarrow> 'v event list" where
  "waitForTimeout opts = [SetTimeout (timeout opts)]"

text \<open>\<^verbatim>\<open>subscribeToCollection\<close>, lines 242-247, up to the call of the DDP client.\<close>

definition subscribeToCollection :: "options \<Rightarrow> string \<Rightarrow> 'v event list" where
  "subscribeToCollection opts name = info opts (Subscribing name) @ [DdpSubscribe name]"

text \<open>
  The callback given to \<^verbatim>\<open>ddp.connect\<close>, lines 396-411; \<open>ddpErr\<close> is \<open>None\<close> when
  the handshake succeeded.  \<^verbatim>\<open>async.map\<close> calls \<^verbatim>\<open>subscribeToCollection\<close> for every
  requested collection, in order, before any answer is handled.
\<close>

definition connect_callback :: "options \<Rightarrow> string option \<Rightarrow> 'v event list" where
  "connect_callback opts ddpErr =
     (if ddpErr \<noteq> None then info opts ConnectionFailed
      else info opts ConnectionSuccessful @
        (if length (colls opts) = 0 then waitForTimeout opts
         else concat (map (subscribeToCollection opts) (colls opts))))"

text \<open>
  \<^verbatim>\<open>processSubscribtionResults\<close>, lines 264-280.  The callback inside
  \<^verbatim>\<open>subscribeToCollection\<close> always passes \<^verbatim>\<open>null\<close> as its error and the object
  \<^verbatim>\<open>{name, err}\<close> as its result, so \<^verbatim>\<open>async.map\<close> calls this function once every
  subscription has answered, with one result for each.  A result is the name and, when
  \<^verbatim>\<open>err\<close> is not \<^verbatim>\<open>undefined\<close>, the \<^verbatim>\<open>message\<close> of the error.
\<close>

definition processSubscribtionResults ::
  "options \<Rightarrow> 'v store \<Rightarrow> (string \<times> string option) list \<Rightarrow> 'v event list" where
  "processSubscribtionResults opts collections results =
     concat (map (\<lambda>r. case r of
         (name, Some msg) \<Rightarrow> [ConsoleError (SubscribeFailed name msg)]
       | (name, None) \<Rightarrow>
           info opts (SubscribeSuccessful name (rowCount collections name))) results)
     @ waitForTimeout opts"

text \<open>The handlers of lines 388-393 and 413-421, as far as they print.\<close>

definition on_message :: "options \<Rightarrow> string \<Rightarrow> 'v event list" where
  "on_message opts msg = (if debug opts then [ConsoleLog (ReceivedMessage msg)] else [])"

definition on_socket_close :: "options \<Rightarrow> 'v event list" where
  "on_socket_close opts = (if verbose opts then [ConsoleLog ConnectionClosed] else [])"

definition on_socket_error :: "string \<Rightarrow> 'v event list" where
  "on_socket_error msg = [ConsoleLog (SocketError msg)]"

subsection \<open>The idle-timeout detector\<close>

text \<open>
  The detector reads the clock and \<^verbatim>\<open>options.lastMessageDate\<close>.  Its state is that
  date, the earliest time at which the pending timer may run (\<open>None\<close>: no timer is
  pending), and the calls of \<^verbatim>\<open>receivedLastDDPMessage\<close> made so far, each with the
  time of the call and the date of the last message then.
\<close>

record detector =
  lastMessageDate :: int
  pending :: "int option"
  completions :: "(int \<times> int) list"

text \<open>\<^verbatim>\<open>setTimeout(..., options.timeout)\<close> at time \<open>now\<close>.\<close>

definition arm :: "int \<Rightarrow> int \<Rightarrow> detector \<Rightarrow> detector" where
  "arm tmo now d = d\<lparr>pending := Some (now + tmo)\<rparr>"

text \<open>
  The function given to \<^verbatim>\<open>setTimeout\<close>, lines 254-261, run at time \<open>now\<close>: it calls
  \<^verbatim>\<open>receivedLastDDPMessage\<close>, or \<^verbatim>\<open>waitForTimeout\<close> again.
\<close>

definition idle_check :: "int \<Rightarrow> int \<Rightarrow> detector \<Rightarrow> detector" where
  "idle_check tmo now d =
     (if now - lastMessageDate d > tmo then
        d\<lparr>pending := None, completions := completions d @ [(now, lastMessageDate d)]\<rparr>
      else arm tmo now d)"

text \<open>
  What the event loop runs, one after the other: the \<^verbatim>\<open>message\<close> handler of line 389
  at some time, or the timer at some time.  A timer runs only if one is pending and not
  before its delay has passed.
\<close>

datatype occurrence =
    is_message: MessageArrives (at_time: int)
  | TimerRuns (at_time: int)

fun occur :: "int \<Rightarrow> detector \<Rightarrow> occurrence \<Rightarrow> detector" where
  "occur tmo d (MessageArrives t) = d\<lparr>lastMessageDate := t\<rparr>"
| "occur tmo d (TimerRuns now) =
     (case pending d of
        None \<Rightarrow> d
      | Some due \<Rightarrow> if now < due then d else idle_check tmo now d)"

definition run_detector :: "int \<Rightarrow> detector \<Rightarrow> occurrence list \<Rightarrow> detector" where
  "run_detector tmo d es = foldl (occur tmo) d es"

subsection \<open>Writing the destinations\<close>

text \<open>\<^verbatim>\<open>finish\<close>, lines 323-329.\<close>

definition finish :: "string option \<Rightarrow> 'v event list" where
  "finish err =
     (case err of None \<Rightarrow> [] | Some e \<Rightarrow> [ConsoleLog SavingFailed, ConsoleLog (WriteError e)])
     @ [DdpClose]"

text \<open>
  The \<^verbatim>\<open>reduce\<close> of \<^verbatim>\<open>writeData\<close>, lines 306-317: the object that is serialized
  for a destination, built from the collection names mapped to it.  (A name that is no
  collection of the store but names an inherited property, such as \<^verbatim>\<open>toString\<close>,
  puts a function into the object, which \<^verbatim>\<open>JSON.stringify\<close> leaves out: it is
  absent from the payload here as well.)
\<close>

fun buffer :: "'v store \<Rightarrow> 'v store \<Rightarrow> string list \<Rightarrow> 'v store" where
  "buffer collections data [] = data"
| "buffer collections data (col # cols) =
     (case map_of collections col of
        None \<Rightarrow> buffer collections data cols
      | Some rs \<Rightarrow> buffer collections (AList.update col rs data) cols)"

text \<open>
  \<^verbatim>\<open>writeData\<close>, lines 304-321, with the writers \<^verbatim>\<open>writeLog\<close> and
  \<^verbatim>\<open>writeJSON\<close>, lines 199-207.  The result is what was printed and asked, and whether
  the callback has already been called (\<^verbatim>\<open>writeLog\<close> calls it at once and without an
  error; \<^verbatim>\<open>fs.writeFile\<close> calls it when the write is over).  A path that is no key of
  the mapping would make \<^verbatim>\<open>reduce\<close> a call on \<^verbatim>\<open>undefined\<close>.
\<close>

definition writeLog :: "string \<Rightarrow> 'v store \<Rightarrow> bool \<Rightarrow> 'v event list \<times> bool" where
  "writeLog path data compressed = ([ConsoleLog (Json data compressed)], True)"

definition writeJSON :: "options \<Rightarrow> string \<Rightarrow> 'v store \<Rightarrow> bool \<Rightarrow> 'v event list \<times> bool" where
  "writeJSON opts path data compressed =
     (info opts (WritingFile path) @ [FsWriteFile path data compressed], False)"

definition writeData ::
  "options \<Rightarrow> 'v store \<Rightarrow> mapping \<Rightarrow> string \<Rightarrow> js_error + 'v event list \<times> bool" where
  "writeData opts collections mapping path =
     (case map_of mapping path of
        None \<Rightarrow> Inl TypeError
      | Some cols \<Rightarrow>
          Inr (if saveToFile opts
               then writeJSON opts path (buffer collections [] cols) (compress opts)
               else writeLog path (buffer collections [] cols) (compress opts)))"

text \<open>
  \<^verbatim>\<open>async.map(filepaths, writeData, finish)\<close>, line 301.  \<^verbatim>\<open>async.map\<close> is the
  library's: it calls the iterator for every item, in order, and counts the callbacks.
  A callback with an error calls the final callback with that error at once and
  disarms it; a callback without one counts, and the last of them calls the final
  callback.  With no items the final callback is called at once.
\<close>

record async_map =
  arr_length :: nat
  completed :: nat
  armed :: bool

definition write_done :: "async_map \<Rightarrow> string option \<Rightarrow> async_map \<times> 'v event list" where
  "write_done st err =
     (case err of
        Some e \<Rightarrow> (st\<lparr>armed := False\<rparr>, if armed st then finish (Some e) else [])
      | None \<Rightarrow>
          (st\<lparr>completed := completed st + 1\<rparr>,
           if completed st + 1 \<ge> arr_length st \<and> armed st then finish None else []))"

fun issue_writes ::
  "options \<Rightarrow> 'v store \<Rightarrow> mapping \<Rightarrow> async_map \<Rightarrow> string list \<Rightarrow>
   'v event list \<times> (js_error + async_map)" where
  "issue_writes opts collections mapping st [] = ([], Inr st)"
| "issue_writes opts collections mapping st (path # paths) =
     (case writeData opts collections mapping path of
        Inl e \<Rightarrow> ([], Inl e)
      | Inr (evs, called) \<Rightarrow>
          (case (if called then write_done st None else (st, [])) of
             (st', evs') \<Rightarrow>
               (case issue_writes opts collections mapping st' paths of
                  (evs'', r) \<Rightarrow> (evs @ evs' @ evs'', r))))"

definition async_map_writes ::
  "options \<Rightarrow> 'v store \<Rightarrow> mapping \<Rightarrow> string list \<Rightarrow>
   'v event list \<times> (js_error + async_map)" where
  "async_map_writes opts collections mapping filepaths =
     (let st = \<lparr>arr_length = length filepaths, completed = 0, armed = True\<rparr>
      in if length filepaths = 0 then (finish None, Inr st)
         else issue_writes opts collections mapping st filepaths)"

text \<open>
  The results of the file writes, in the order in which they come in: each is handled by
  the callback that \<^verbatim>\<open>async.map\<close> gave to \<^verbatim>\<open>writeData\<close>.
\<close>

fun writes_done :: "async_map \<Rightarrow> string option list \<Rightarrow> async_map \<times> 'v event list" where
  "writes_done st [] = (st, [])"
| "writes_done st (err # errs) =
     (case write_done st err of
        (st', evs) \<Rightarrow> (case writes_done st' errs of (st'', evs') \<Rightarrow> (st'', evs @ evs')))"

text \<open>\<^verbatim>\<open>receivedLastDDPMessage\<close>, lines 282-302.\<close>

definition receivedLastDDPMessage ::
  "conversions \<Rightarrow> 'v store \<Rightarrow> options \<times> mapping \<Rightarrow>
   'v event list \<times> (js_error + (options \<times> mapping) \<times> async_map)" where
  "receivedLastDDPMessage cv collections s =
     (case (if all (fst s) \<and> length (map fst collections) > 0
            then discover_all cv collections s (map fst collections)
            else ([], Inr s)) of
        (evs, Inl e) \<Rightarrow> (evs, Inl e)
      | (evs, Inr (opts, mapping)) \<Rightarrow>
          (let filepaths = map fst mapping;
               evs' = (if length filepaths = 0 then info opts NoCollectionsReceived else [])
           in case async_map_writes opts collections mapping filepaths of
                (evs'', Inl e) \<Rightarrow> (evs @ evs' @ evs'', Inl e)
              | (evs'', Inr st) \<Rightarrow> (evs @ evs' @ evs'', Inr ((opts, mapping), st))))"

text \<open>
  The texts that are printed through \<^verbatim>\<open>info\<close>; every other one is printed by a
  direct call of \<^verbatim>\<open>log\<close> or \<^verbatim>\<open>error\<close>.
\<close>

fun via_info :: "'v message \<Rightarrow> bool" where
  "via_info ConnectingTo = True"
| "via_info ConnectionFailed = True"
| "via_info ConnectionSuccessful = True"
| "via_info (Subscribing n) = True"
| "via_info (SubscribeSuccessful n k) = True"
| "via_info (UnknownCollection n k) = True"
| "via_info NoCollectionsReceived = True"
| "via_info (WritingFile p) = True"
| "via_info m = False"

section \<open>Properties\<close>

subsection \<open>Strings and formatting\<close>

lemma indexOf_ge: "- 1 \<le> indexOf s p"
  by (induction s) (auto simp: Let_def)

lemma indexOf_char_absent: "indexOf s [c] = - 1 \<longleftrightarrow> c \<notin> set s"
proof (induction s)
  case Nil
  show ?case by simp
next
  case (Cons x xs)
  have "- 1 \<le> indexOf xs [c]" by (rule indexOf_ge)
  then have "indexOf xs [c] + 1 \<noteq> - 1" by arith
  with Cons show ?case by (auto simp: Let_def)
qed

lemma format_scan_no_percent:
  "CHR ''%'' \<notin> set pre \<Longrightarrow>
   format_scan cv (pre @ CHR ''%'' # rest) name u =
     (case format_scan cv (CHR ''%'' # rest) name u of (t, u') \<Rightarrow> (pre @ t, u'))"
proof (induction pre)
  case Nil
  show ?case by (simp split: prod.splits)
next
  case (Cons a pre)
  then have a: "a \<noteq> CHR ''%''" and IH:
    "format_scan cv (pre @ CHR ''%'' # rest) name u =
     (case format_scan cv (CHR ''%'' # rest) name u of (t, u') \<Rightarrow> (pre @ t, u'))"
    by auto
  obtain z zs where z: "pre @ CHR ''%'' # rest = z # zs" by (cases pre) auto
  have "format_scan cv (a # z # zs) name u =
        (case format_scan cv (z # zs) name u of (t, u') \<Rightarrow> (a # t, u'))"
    using a by simp
  then show ?case using IH z by (simp split: prod.splits)
qed

lemma format_scan_used:
  "indexOf post ''%%'' = - 1 \<Longrightarrow> format_scan cv post name False = (post, False)"
proof (induction cv post name "False" rule: format_scan.induct)
  case (1 cv name)
  show ?case by simp
next
  case (2 cv x name)
  show ?case by simp
next
  case (3 cv x y r name)
  have ge: "- 1 \<le> indexOf (y # r) ''%%''" "- 1 \<le> indexOf r ''%%''"
    by (rule indexOf_ge)+
  from "3.prems" have np: "\<not> (x = CHR ''%'' \<and> y = CHR ''%'')"
    by (auto split: if_splits)
  from "3.prems" np ge have tl: "indexOf (y # r) ''%%'' = - 1"
    by (auto simp: Let_def split: if_splits)
  show ?case
  proof (cases "x = CHR ''%'' \<and> (y = CHR ''s'' \<or> y = CHR ''d'' \<or> y = CHR ''j'')")
    case True
    with tl ge have "indexOf r ''%%'' = - 1"
      by (auto simp: Let_def split: if_splits)
    with 3 True np show ?thesis by auto
  next
    case False
    with 3 np tl show ?thesis by auto
  qed
qed

subsection \<open>Path templating\<close>

text \<open>
  C4, as the code has it.  The default is \<open>name.json\<close>; a template without any
  \<^verbatim>\<open>%\<close> is returned as it is; a template whose first \<^verbatim>\<open>%\<close> starts the marker
  \<^verbatim>\<open>%s\<close>, with no \<^verbatim>\<open>%%\<close> after it, is returned with the name in place of
  that first marker.
\<close>

theorem formatPath_templating:
  "formatPath cv None n = n @ ''.json'' \<and>
   formatPath cv (Some '''') n = n @ ''.json'' \<and>
   (t \<noteq> '''' \<and> indexOf t ''%'' = - 1 \<longrightarrow> formatPath cv (Some t) n = t) \<and>
   (indexOf pre ''%'' = - 1 \<and> indexOf post ''%%'' = - 1 \<longrightarrow>
      formatPath cv (Some (pre @ ''%s'' @ post)) n = pre @ n @ post)"
proof (intro conjI impI)
  show "formatPath cv None n = n @ ''.json''"
    by (simp add: formatPath_def util_format_def)
  show "formatPath cv (Some '''') n = n @ ''.json''"
    by (simp add: formatPath_def util_format_def)
  show "formatPath cv (Some t) n = t" if "t \<noteq> '''' \<and> indexOf t ''%'' = - 1"
    using that by (simp add: formatPath_def)
  show "formatPath cv (Some (pre @ ''%s'' @ post)) n = pre @ n @ post"
    if h: "indexOf pre ''%'' = - 1 \<and> indexOf post ''%%'' = - 1"
  proof -
    from h have pre: "CHR ''%'' \<notin> set pre" by (simp add: indexOf_char_absent)
    have "indexOf (pre @ ''%s'' @ post) ''%'' \<noteq> - 1"
      by (simp add: indexOf_char_absent)
    moreover have "format_scan cv (pre @ CHR ''%'' # CHR ''s'' # post) n True
                   = (pre @ n @ post, False)"
      using pre h by (simp add: format_scan_no_percent format_scan_used)
    ultimately show ?thesis
      by (simp add: formatPath_def util_format_def)
  qed
qed

theorem formatPath_templating_witness:
  "indexOf ''out.json'' ''%'' = - 1 \<and> indexOf ''col_'' ''%'' = - 1 \<and>
   indexOf ''.json'' ''%%'' = - 1 \<and>
   formatPath plain_name_conversions None ''cats'' = ''cats.json'' \<and>
   formatPath plain_name_conversions (Some ''out.json'') ''cats'' = ''out.json'' \<and>
   formatPath plain_name_conversions (Some ''col_%s.json'') ''cats'' = ''col_cats.json''"
  using formatPath_templating [of plain_name_conversions "''cats''" "''out.json''"
      "''col_''" "''.json''"]
  by simp

text \<open>
  C4 as stated fails.  The template \<^verbatim>\<open>%s_100%%.json\<close> contains the marker, and
  the result is not the template with the name in place of the marker, because
  \<^verbatim>\<open>util.format\<close> also turns \<^verbatim>\<open>%%\<close> into \<^verbatim>\<open>%\<close>.  The template
  \<^verbatim>\<open>100%.json\<close> does not contain the marker, and it is not returned unchanged,
  because the test before formatting is for \<^verbatim>\<open>%\<close> alone and \<^verbatim>\<open>util.format\<close>
  appends the argument that no placeholder took.
\<close>

theorem formatPath_marker_counterexample:
  "indexOf ''%s_100%%.json'' ''%s'' = 0 \<and>
   formatPath plain_name_conversions (Some ''%s_100%%.json'') ''cats'' = ''cats_100%.json'' \<and>
   formatPath plain_name_conversions (Some ''%s_100%%.json'') ''cats'' \<noteq> ''cats_100%%.json'' \<and>
   indexOf ''100%.json'' ''%s'' = - 1 \<and>
   formatPath plain_name_conversions (Some ''100%.json'') ''cats'' = ''100%.json cats'' \<and>
   formatPath plain_name_conversions (Some ''100%.json'') ''cats'' \<noteq> ''100%.json''"
  by (simp add: formatPath_def util_format_def)

subsection \<open>The destination mapping\<close>

lemma update_absent: "map_of m k = None \<Longrightarrow> AList.update k v m = m @ [(k, v)]"
  by (induction m) (auto split: if_splits)


lemma update_last:
  "map_of m k = None \<Longrightarrow> AList.update k v (m @ [(k, w)]) = m @ [(k, v)]"
  by (induction m) (auto split: if_splits)


lemma addPath_new:
  assumes "map_of m (property_key p) = None" "property_key p \<notin> set inherited_properties"
  shows "addPathToMapping m p c = Inr (m @ [(property_key p, [c])])"
proof -
  let ?k = "property_key p"
  have u: "AList.update ?k [] m = m @ [(?k, [])]"
    using assms(1) by (rule update_absent)
  have l: "map_of (m @ [(?k, [])]) ?k = Some []"
    using assms(1) by (simp add: map_add_def)
  have "AList.update ?k ([] @ [c]) (m @ [(?k, [])]) = m @ [(?k, [c])]"
    using assms(1) by (simp add: update_last)
  with u l assms show ?thesis
    unfolding addPathToMapping_def Let_def by simp
qed




lemma map_of_None_iff_fst: "map_of m k = None \<longleftrightarrow> k \<notin> fst ` set m"
  by (simp add: map_of_eq_None_iff)

lemma reduce_colls_distinct:
  assumes "cs = drop i names"
    and "distinct (map (\<lambda>j. property_key (generateFilename cv opts (names ! j) j)) [i..<length names])"
    and "\<forall>j\<in>{i..<length names}. property_key (generateFilename cv opts (names ! j) j) \<notin> fst ` set m \<union> set inherited_properties"
  shows "reduce_colls cv opts m i cs =
         Inr (m @ map (\<lambda>j. (property_key (generateFilename cv opts (names ! j) j), [names ! j])) [i..<length names])"
  using assms
proof (induction cs arbitrary: m i)
  case Nil
  then have "length names \<le> i" by simp
  then show ?case by simp
next
  case (Cons c cs)
  define g where "g = (\<lambda>j. property_key (generateFilename cv opts (names ! j) j))"
  have i: "i < length names"
  proof (rule ccontr)
    assume "\<not> i < length names"
    then have "drop i names = []" by simp
    with Cons.prems(1) show False by simp
  qed
  have dr: "drop i names = names ! i # drop (Suc i) names"
    using i by (simp add: Cons_nth_drop_Suc)
  with Cons.prems(1) have c: "c = names ! i" and cs: "cs = drop (Suc i) names"
    by simp_all
  have upt: "[i..<length names] = i # [Suc i..<length names]"
    using i by (simp add: upt_conv_Cons)
  have p2: "distinct (map g [i..<length names])"
    using Cons.prems(2) by (simp add: g_def)
  have p3: "\<forall>j\<in>{i..<length names}. g j \<notin> fst ` set m \<union> set inherited_properties"
    using Cons.prems(3) by (simp add: g_def)
  from p3 i have "g i \<notin> fst ` set m \<union> set inherited_properties" by simp
  then have fresh: "map_of m (g i) = None" "g i \<notin> set inherited_properties"
    by (simp_all add: map_of_None_iff_fst)
  have step: "addPathToMapping m (generateFilename cv opts c i) c = Inr (m @ [(g i, [c])])"
    using fresh unfolding c g_def by (rule addPath_new)
  from p2 have d: "distinct (map g [Suc i..<length names])"
    and ni: "g i \<notin> g ` {Suc i..<length names}"
    by (simp_all add: upt)
  have p3': "\<forall>j\<in>{Suc i..<length names}. g j \<notin> fst ` set (m @ [(g i, [c])]) \<union> set inherited_properties"
  proof
    fix j assume j: "j \<in> {Suc i..<length names}"
    then have "j \<in> {i..<length names}" by simp
    with p3 have "g j \<notin> fst ` set m \<union> set inherited_properties" by blast
    moreover from ni j have "g j \<noteq> g i" by (metis imageI)
    ultimately show "g j \<notin> fst ` set (m @ [(g i, [c])]) \<union> set inherited_properties"
      by simp
  qed
  have "reduce_colls cv opts (m @ [(g i, [c])]) (Suc i) cs =
        Inr ((m @ [(g i, [c])]) @ map (\<lambda>j. (g j, [names ! j])) [Suc i..<length names])"
    using Cons.IH [OF cs] d p3' unfolding g_def by blast
  then have "reduce_colls cv opts m i (c # cs) =
        Inr (m @ map (\<lambda>j. (g j, [names ! j])) (i # [Suc i..<length names]))"
    using step by (simp add: c)
  then show ?case unfolding upt [symmetric] g_def .
qed

lemma processCliOptions_cases:
  assumes "processCliOptions cli = Inr opts"
  shows "colls opts = colls cli \<and> saveToFile opts = (output_opt cli \<noteq> []) \<and>
         mergeCollections opts = (\<not> (output_opt cli \<noteq> [] \<and>
            (indexOf (output_opt cli ! 0) ''%s'' \<noteq> - 1 \<or> length (output_opt cli) = length (colls cli)))) \<and>
         files opts = (if output_opt cli \<noteq> [] \<and> indexOf (output_opt cli ! 0) ''%s'' \<noteq> - 1 \<and> colls cli \<noteq> []
                       then map (\<lambda>c. output_opt cli ! 0) (colls cli) else output_opt cli)"
  using assms
  by (auto simp: processCliOptions_def Let_def cli.defs split: option.splits if_splits)

subsection \<open>Rejected output options\<close>

text \<open>
  C7.  With more than one output, of which the first contains the marker \<^verbatim>\<open>%s\<close> or
  whose number differs from the number of requested collections, \<^verbatim>\<open>processCliOptions\<close>
  prints an error and calls \<^verbatim>\<open>process.exit(1)\<close>; the program, unless it was only
  asked for its version or its help, ends there: it builds no mapping and never asks for a
  connection.
\<close>

theorem ambiguous_outputs_rejected:
  assumes "length (output_opt cli) > 1"
    and "indexOf (output_opt cli ! 0) ''%s'' \<noteq> - 1 \<or> length (output_opt cli) \<noteq> length (colls cli)"
  shows "(\<exists>m. (processCliOptions cli :: 'v event list + options) = Inl [ConsoleError m, ProcessExit 1]) \<and>
         (\<not> version cli \<and> \<not> help_opt cli \<longrightarrow>
            (\<exists>m ms. (startup cv cli :: 'v started) = Exited (ConsoleError m # ms @ [ProcessExit 1])
                      \<and> DdpConnect \<notin> set ms))"
proof -
  from assms have
    "\<exists>m. (processCliOptions cli :: 'v event list + options) = Inl [ConsoleError m, ProcessExit 1]"
    by (auto simp: processCliOptions_def Let_def split: option.splits)
  then obtain m where
    m: "(processCliOptions cli :: 'v event list + options) = Inl [ConsoleError m, ProcessExit 1]" ..
  have "\<exists>m ms. (startup cv cli :: 'v started) = Exited (ConsoleError m # ms @ [ProcessExit 1])
                      \<and> DdpConnect \<notin> set ms" if "\<not> version cli \<and> \<not> help_opt cli"
  proof (cases "length (colls cli) = 0 \<and> \<not> all cli")
    case True
    with that have "(startup cv cli :: 'v started) =
       Exited (ConsoleError NoCollectionGiven # [ConsoleLog Usage, ConsoleLog TryHelp] @ [ProcessExit 1])"
      by (simp add: startup_def)
    then show ?thesis
      by (intro exI [of _ NoCollectionGiven] exI [of _ "[ConsoleLog Usage, ConsoleLog TryHelp]"])
        simp
  next
    case False
    with that m have "(startup cv cli :: 'v started) = Exited (ConsoleError m # [] @ [ProcessExit 1])"
      by (simp add: startup_def)
    then show ?thesis
      by (intro exI [of _ m] exI [of _ "[]"]) simp
  qed
  with m show ?thesis by blast
qed

theorem ambiguous_outputs_rejected_witness:
  "length [''a.json'', ''b.json'', ''c.json''] > 1 \<and>
   length [''a.json'', ''b.json'', ''c.json''] \<noteq> length [''cats''] \<and>
   processCliOptions
     \<lparr>url_protocol = None, output_opt = [''a.json'', ''b.json'', ''c.json''], all = False,
      timeout = 0, compress = False, verbose = False, debug = False, version = False,
      help_opt = False, colls = [''cats'']\<rparr>
   = Inl [ConsoleError MoreOutputsThanCollections, ProcessExit 1] \<and>
   startup plain_name_conversions
     \<lparr>url_protocol = None, output_opt = [''a.json'', ''b.json'', ''c.json''], all = False,
      timeout = 0, compress = False, verbose = False, debug = False, version = False,
      help_opt = False, colls = [''cats'']\<rparr>
   = Exited [ConsoleError MoreOutputsThanCollections, ProcessExit 1]"
  using ambiguous_outputs_rejected [of
     "\<lparr>url_protocol = None, output_opt = [''a.json'', ''b.json'', ''c.json''], all = False,
      timeout = 0, compress = False, verbose = False, debug = False, version = False,
      help_opt = False, colls = [''cats'']\<rparr>" plain_name_conversions]
  by (simp add: processCliOptions_def startup_def Let_def)

subsection \<open>Split mode\<close>

text \<open>
  C5, as the code has it.  Split mode (\<^verbatim>\<open>mergeCollections\<close> false) is the case of
  an output list whose first entry contains \<^verbatim>\<open>%s\<close>, or which is as long as the list
  of requested collections.  Then the destination of the \<open>i\<close>-th requested collection
  is derived from the template or from the \<open>i\<close>-th output; and when these destinations
  are pairwise distinct and none is the name of an inherited property, the mapping has
  exactly them as keys, each with its one collection.
\<close>

theorem split_mode_mapping:
  assumes "processCliOptions cli = Inr opts"
  shows "colls opts = colls cli \<and>
    (\<not> mergeCollections opts) =
       (output_opt cli \<noteq> [] \<and>
        (indexOf (output_opt cli ! 0) ''%s'' \<noteq> - 1 \<or> length (output_opt cli) = length (colls cli))) \<and>
    (\<not> mergeCollections opts \<longrightarrow>
       (let dest = (\<lambda>i. formatPath cv
                     (Some (output_opt cli ! (if indexOf (output_opt cli ! 0) ''%s'' \<noteq> - 1 then 0 else i)))
                     (colls cli ! i));
            n = length (colls cli)
        in (\<forall>i<n. generateFilename cv opts (colls cli ! i) i = Some (dest i)) \<and>
           (distinct (map dest [0..<n]) \<and> (\<forall>i<n. dest i \<notin> set inherited_properties) \<longrightarrow>
              pathToCollectionMapping cv opts = Inr (map (\<lambda>i. (dest i, [colls cli ! i])) [0..<n]))))"
proof -
  note pc = processCliOptions_cases [OF assms]
  let ?marker = "indexOf (output_opt cli ! 0) ''%s'' \<noteq> - 1"
  let ?dest = "\<lambda>i. formatPath cv (Some (output_opt cli ! (if ?marker then 0 else i))) (colls cli ! i)"
  let ?n = "length (colls cli)"
  have gen: "generateFilename cv opts (colls cli ! i) i = Some (?dest i)"
    if split: "\<not> mergeCollections opts" and i: "i < ?n" for i
  proof -
    from pc split have out: "output_opt cli \<noteq> []" and
      m: "?marker \<or> length (output_opt cli) = length (colls cli)" by auto
    from i have ne: "colls cli \<noteq> []" by auto
    have "at (files opts) i = Some (output_opt cli ! (if ?marker then 0 else i))"
      using pc out m i ne by (auto simp: at_def)
    with pc split out show ?thesis by (simp add: generateFilename_def)
  qed
  have mp: "pathToCollectionMapping cv opts = Inr (map (\<lambda>i. (?dest i, [colls cli ! i])) [0..<?n])"
    if split: "\<not> mergeCollections opts"
      and d: "distinct (map ?dest [0..<?n])" and ni: "\<forall>i<?n. ?dest i \<notin> set inherited_properties"
  proof -
    have key: "property_key (generateFilename cv opts (colls opts ! j) j) = ?dest j" if "j < ?n" for j
      using gen [OF split that] pc by (simp add: property_key_def)
    have eq1: "map (\<lambda>j. property_key (generateFilename cv opts (colls opts ! j) j)) [0..<length (colls opts)]
               = map ?dest [0..<?n]"
      using key pc by (intro map_cong) auto
    have eq2: "map (\<lambda>j. (property_key (generateFilename cv opts (colls opts ! j) j), [colls opts ! j]))
                 [0..<length (colls opts)]
               = map (\<lambda>i. (?dest i, [colls cli ! i])) [0..<?n]"
      using key pc by (intro map_cong) auto
    have "reduce_colls cv opts [] 0 (colls opts) =
          Inr ([] @ map (\<lambda>j. (property_key (generateFilename cv opts (colls opts ! j) j), [colls opts ! j]))
                 [0..<length (colls opts)])"
    proof (rule reduce_colls_distinct)
      show "colls opts = drop 0 (colls opts)" by simp
      show "distinct (map (\<lambda>j. property_key (generateFilename cv opts (colls opts ! j) j))
               [0..<length (colls opts)])"
        unfolding eq1 by (rule d)
      show "\<forall>j\<in>{0..<length (colls opts)}.
              property_key (generateFilename cv opts (colls opts ! j) j)
              \<notin> fst ` set [] \<union> set inherited_properties"
        using key ni pc by auto
    qed
    then show ?thesis
      unfolding pathToCollectionMapping_def eq2 by simp
  qed
  from pc have "colls opts = colls cli" by simp
  moreover from pc have "(\<not> mergeCollections opts) =
       (output_opt cli \<noteq> [] \<and> (?marker \<or> length (output_opt cli) = length (colls cli)))"
    by simp
  ultimately show ?thesis using gen mp unfolding Let_def by blast
qed

text \<open>The template fan-out of three collections over \<^verbatim>\<open>col_%s.json\<close>.\<close>

theorem split_mode_mapping_witness:
  "processCliOptions
     \<lparr>url_protocol = None, output_opt = [''col_%s.json''], all = False, timeout = 0,
      compress = False, verbose = False, debug = False, version = False, help_opt = False,
      colls = [''cats'', ''dogs'', ''lizards'']\<rparr>
   = Inr \<lparr>url_protocol = None, output_opt = [''col_%s.json''], all = False, timeout = 0,
      compress = False, verbose = False, debug = False, version = False, help_opt = False,
      colls = [''cats'', ''dogs'', ''lizards''],
      files = [''col_%s.json'', ''col_%s.json'', ''col_%s.json''], saveToFile = True,
      mergeCollections = False\<rparr> \<and>
   pathToCollectionMapping plain_name_conversions
     \<lparr>url_protocol = None, output_opt = [''col_%s.json''], all = False, timeout = 0,
      compress = False, verbose = False, debug = False, version = False, help_opt = False,
      colls = [''cats'', ''dogs'', ''lizards''],
      files = [''col_%s.json'', ''col_%s.json'', ''col_%s.json''], saveToFile = True,
      mergeCollections = False\<rparr>
   = Inr [(''col_cats.json'', [''cats'']), (''col_dogs.json'', [''dogs'']),
          (''col_lizards.json'', [''lizards''])]"
proof -
  let ?cli = "\<lparr>url_protocol = None, output_opt = [''col_%s.json''], all = False, timeout = 0,
      compress = False, verbose = False, debug = False, version = False, help_opt = False,
      colls = [''cats'', ''dogs'', ''lizards'']\<rparr>"
  let ?opts = "\<lparr>url_protocol = None, output_opt = [''col_%s.json''], all = False, timeout = 0,
      compress = False, verbose = False, debug = False, version = False, help_opt = False,
      colls = [''cats'', ''dogs'', ''lizards''],
      files = [''col_%s.json'', ''col_%s.json'', ''col_%s.json''], saveToFile = True,
      mergeCollections = False\<rparr>"
  have p: "processCliOptions ?cli = Inr ?opts"
    by (simp add: processCliOptions_def cli.defs Let_def)
  have u: "[0..<3] = [0, 1, 2]" by (simp add: upt_rec)
  have f: "formatPath plain_name_conversions (Some ''col_%s.json'') ''cats'' = ''col_cats.json''"
    "formatPath plain_name_conversions (Some ''col_%s.json'') ''dogs'' = ''col_dogs.json''"
    "formatPath plain_name_conversions (Some ''col_%s.json'') ''lizards'' = ''col_lizards.json''"
    by (simp_all add: formatPath_def util_format_def)
  from split_mode_mapping [OF p, of plain_name_conversions]
  show ?thesis using p by (simp add: Let_def u f inherited_properties_def All_less_Suc)
qed

text \<open>
  C5 as stated fails: two outputs and two collections are split mode, and when the two
  outputs are the same path both collections land in one destination.
\<close>

theorem split_mode_shared_destination_counterexample:
  "processCliOptions
     \<lparr>url_protocol = None, output_opt = [''out.json'', ''out.json''], all = False, timeout = 0,
      compress = False, verbose = False, debug = False, version = False, help_opt = False,
      colls = [''cats'', ''dogs'']\<rparr>
   = Inr \<lparr>url_protocol = None, output_opt = [''out.json'', ''out.json''], all = False,
      timeout = 0, compress = False, verbose = False, debug = False, version = False,
      help_opt = False, colls = [''cats'', ''dogs''],
      files = [''out.json'', ''out.json''], saveToFile = True, mergeCollections = False\<rparr> \<and>
   pathToCollectionMapping plain_name_conversions
     \<lparr>url_protocol = None, output_opt = [''out.json'', ''out.json''], all = False,
      timeout = 0, compress = False, verbose = False, debug = False, version = False,
      help_opt = False, colls = [''cats'', ''dogs''],
      files = [''out.json'', ''out.json''], saveToFile = True, mergeCollections = False\<rparr>
   = Inr [(''out.json'', [''cats'', ''dogs''])]"
  by (simp add: processCliOptions_def cli.defs Let_def pathToCollectionMapping_def
      generateFilename_def at_def formatPath_def addPathToMapping_def property_key_def
      inherited_properties_def)

subsection \<open>Late discovery\<close>














subsection \<open>The payload of a destination\<close>

lemma buffer_map_of:
  "map_of (buffer c data cols) k =
     (if k \<in> set cols \<and> map_of c k \<noteq> None then map_of c k else map_of data k)"
proof (induction cols arbitrary: data)
  case Nil
  show ?case by simp
next
  case (Cons col cols)
  show ?case
  proof (cases "map_of c col")
    case None
    with Cons [of data] show ?thesis by auto
  next
    case (Some rs)
    with Cons [of "AList.update col rs data"] show ?thesis
      by (auto simp: update_conv')
  qed
qed

lemma buffer_distinct:
  "distinct (map fst data) \<Longrightarrow> distinct (map fst (buffer c data cols))"
  by (induction cols arbitrary: data) (auto simp: distinct_update split: option.splits)

lemma buffer_keys:
  "set (map fst (buffer c [] cols)) = {k \<in> set cols. map_of c k \<noteq> None}"
proof -
  have "set (map fst (buffer c [] cols)) = dom (map_of (buffer c [] cols))"
    by (simp add: dom_map_of_conv_image_fst)
  also have "\<dots> = {k \<in> set cols. map_of c k \<noteq> None}"
    by (auto simp: dom_def buffer_map_of)
  finally show ?thesis .
qed

text \<open>
  C9.  For a destination of the mapping, \<^verbatim>\<open>writeData\<close> never fails and hands one
  object to the writer: its keys are the collection names mapped to the destination that
  the store has, each once; its values are the collections of the store; a single
  collection is still kept under its name; a name that the store lacks is left out.
\<close>

theorem destination_payload:
  assumes "map_of mapping path = Some cols"
  shows "writeData opts collections mapping path =
           Inr (if saveToFile opts
                then (info opts (WritingFile path) @
                      [FsWriteFile path (buffer collections [] cols) (compress opts)], False)
                else ([ConsoleLog (Json (buffer collections [] cols) (compress opts))], True)) \<and>
         distinct (map fst (buffer collections [] cols)) \<and>
         set (map fst (buffer collections [] cols)) = {c \<in> set cols. map_of collections c \<noteq> None} \<and>
         (\<forall>c\<in>set cols. map_of (buffer collections [] cols) c = map_of collections c) \<and>
         (\<forall>c. cols = [c] \<longrightarrow>
            buffer collections [] cols =
              (case map_of collections c of None \<Rightarrow> [] | Some rs \<Rightarrow> [(c, rs)]))"
proof (intro conjI)
  show "writeData opts collections mapping path =
           Inr (if saveToFile opts
                then (info opts (WritingFile path) @
                      [FsWriteFile path (buffer collections [] cols) (compress opts)], False)
                else ([ConsoleLog (Json (buffer collections [] cols) (compress opts))], True))"
    using assms by (simp add: writeData_def writeJSON_def writeLog_def)
  show "distinct (map fst (buffer collections [] cols))"
    by (rule buffer_distinct) simp
  show "set (map fst (buffer collections [] cols)) = {c \<in> set cols. map_of collections c \<noteq> None}"
    by (rule buffer_keys)
  show "\<forall>c\<in>set cols. map_of (buffer collections [] cols) c = map_of collections c"
    by (auto simp: buffer_map_of)
  show "\<forall>c. cols = [c] \<longrightarrow>
            buffer collections [] cols =
              (case map_of collections c of None \<Rightarrow> [] | Some rs \<Rightarrow> [(c, rs)])"
    by (auto split: option.splits)
qed

theorem destination_payload_witness:
  "map_of [(''out.json'', [''cats'', ''ghosts''])] ''out.json'' = Some [''cats'', ''ghosts''] \<and>
   writeData
     \<lparr>url_protocol = None, output_opt = [''out.json''], all = False, timeout = 0,
      compress = True, verbose = False, debug = False, version = False, help_opt = False,
      colls = [''cats'', ''ghosts''], files = [''out.json''], saveToFile = True,
      mergeCollections = True\<rparr>
     [(''cats'', [(''id1'', 7::nat)])] [(''out.json'', [''cats'', ''ghosts''])] ''out.json''
   = Inr ([FsWriteFile ''out.json'' [(''cats'', [(''id1'', 7)])] True], False) \<and>
   buffer [(''cats'', [(''id1'', 7::nat)])] [] [''cats''] = [(''cats'', [(''id1'', 7)])] \<and>
   buffer [(''cats'', [(''id1'', 7::nat)])] [] [''ghosts''] = []"
  using destination_payload [of "[(''out.json'', [''cats'', ''ghosts''])]" "''out.json''"
      "[''cats'', ''ghosts'']"
      "\<lparr>url_protocol = None, output_opt = [''out.json''], all = False, timeout = 0,
      compress = True, verbose = False, debug = False, version = False, help_opt = False,
      colls = [''cats'', ''ghosts''], files = [''out.json''], saveToFile = True,
      mergeCollections = True\<rparr>" "[(''cats'', [(''id1'', 7::nat)])]"]
  by (simp add: info_def)

subsection \<open>Subscription results\<close>

lemma processSubscribtionResults_events:
  "ev \<in> set (processSubscribtionResults opts collections results) \<longleftrightarrow>
     ev = SetTimeout (timeout opts) \<or>
     (\<exists>name msg. (name, Some msg) \<in> set results \<and> ev = ConsoleError (SubscribeFailed name msg)) \<or>
     (verbose opts \<and> (\<exists>name. (name, None) \<in> set results \<and>
        ev = ConsoleLog (SubscribeSuccessful name (rowCount collections name))))"
  by (auto simp: processSubscribtionResults_def waitForTimeout_def info_def
      split: option.splits if_splits)

text \<open>
  C8.  Whatever the subscription results are, every failed one is reported through
  \<^verbatim>\<open>error\<close> with the collection name and the error message, every successful one is
  still handled, the process is not ended and the connection not closed, and the last
  thing done is to start the idle wait.  All requested collections were subscribed to.
\<close>

theorem failed_subscription_not_fatal:
  fixes collections :: "'v store"
  shows "(\<forall>name msg. (name, Some msg) \<in> set results \<longrightarrow>
      ConsoleError (SubscribeFailed name msg)
        \<in> set (processSubscribtionResults opts collections results)) \<and>
   (\<forall>name. (name, None) \<in> set results \<and> verbose opts \<longrightarrow>
      ConsoleLog (SubscribeSuccessful name (rowCount collections name))
        \<in> set (processSubscribtionResults opts collections results)) \<and>
   (\<forall>n. ProcessExit n \<notin> set (processSubscribtionResults opts collections results)) \<and>
   DdpClose \<notin> set (processSubscribtionResults opts collections results) \<and>
   last (processSubscribtionResults opts collections results) = SetTimeout (timeout opts) \<and>
   (\<forall>c\<in>set (colls opts).
      DdpSubscribe c \<in> set (connect_callback opts None :: 'v event list))"
proof (intro conjI allI impI ballI)
  fix name msg assume "(name, Some msg) \<in> set results"
  then show "ConsoleError (SubscribeFailed name msg)
        \<in> set (processSubscribtionResults opts collections results)"
    by (auto simp: processSubscribtionResults_events)
next
  fix name assume "(name, None) \<in> set results \<and> verbose opts"
  then show "ConsoleLog (SubscribeSuccessful name (rowCount collections name))
        \<in> set (processSubscribtionResults opts collections results)"
    by (auto simp: processSubscribtionResults_events)
next
  fix n show "ProcessExit n \<notin> set (processSubscribtionResults opts collections results)"
    by (simp add: processSubscribtionResults_events)
next
  show "DdpClose \<notin> set (processSubscribtionResults opts collections results)"
    by (simp add: processSubscribtionResults_events)
next
  show "last (processSubscribtionResults opts collections results) = SetTimeout (timeout opts)"
    by (simp add: processSubscribtionResults_def waitForTimeout_def)
next
  fix c assume "c \<in> set (colls opts)"
  then show "DdpSubscribe c \<in> set (connect_callback opts None :: 'v event list)"
    by (auto simp: connect_callback_def subscribeToCollection_def)
qed

theorem failed_subscription_not_fatal_witness:
  "processSubscribtionResults
     \<lparr>url_protocol = None, output_opt = [], all = False, timeout = 0,
      compress = False, verbose = True, debug = False, version = False, help_opt = False,
      colls = [''cats'', ''dogs''], files = [], saveToFile = False, mergeCollections = True\<rparr>
     [(''dogs'', [(''id1'', 7::nat)])] [(''cats'', Some ''not found''), (''dogs'', None)]
   = [ConsoleError (SubscribeFailed ''cats'' ''not found''),
      ConsoleLog (SubscribeSuccessful ''dogs'' 1), SetTimeout 0] \<and>
   connect_callback
     \<lparr>url_protocol = None, output_opt = [], all = False, timeout = 0,
      compress = False, verbose = True, debug = False, version = False, help_opt = False,
      colls = [''cats'', ''dogs''], files = [], saveToFile = False, mergeCollections = True\<rparr>
     None
   = ([ConsoleLog ConnectionSuccessful, ConsoleLog (Subscribing ''cats''), DdpSubscribe ''cats'',
       ConsoleLog (Subscribing ''dogs''), DdpSubscribe ''dogs''] :: nat event list)"
  using failed_subscription_not_fatal [of "[(''cats'', Some ''not found''), (''dogs'', None)]"
     "\<lparr>url_protocol = None, output_opt = [], all = False, timeout = 0,
      compress = False, verbose = True, debug = False, version = False, help_opt = False,
      colls = [''cats'', ''dogs''], files = [], saveToFile = False, mergeCollections = True\<rparr>"
     "[(''dogs'', [(''id1'', 7::nat)])]"]
  by (simp add: processSubscribtionResults_def connect_callback_def subscribeToCollection_def
      waitForTimeout_def info_def rowCount_def)

subsection \<open>A failed connection\<close>

text \<open>
  C1, as the code has it.  When the handshake fails the callback only calls
  \<^verbatim>\<open>info\<close>: it subscribes to nothing, starts no wait, writes and prints no data, and
  leaves the connection and the process alone.  With \<^verbatim>\<open>verbose\<close> set the failure is
  printed.
\<close>

theorem connection_failure_stops:
  "(connect_callback opts (Some e) :: 'v event list) = info opts ConnectionFailed \<and>
   (verbose opts \<longrightarrow>
      (connect_callback opts (Some e) :: 'v event list) = [ConsoleLog ConnectionFailed]) \<and>
   (\<forall>n. DdpSubscribe n \<notin> set (connect_callback opts (Some e) :: 'v event list)) \<and>
   (\<forall>t. SetTimeout t \<notin> set (connect_callback opts (Some e) :: 'v event list)) \<and>
   (\<forall>p d c. FsWriteFile p d c \<notin> set (connect_callback opts (Some e) :: 'v event list)) \<and>
   (\<forall>d c. ConsoleLog (Json d c) \<notin> set (connect_callback opts (Some e) :: 'v event list)) \<and>
   DdpClose \<notin> set (connect_callback opts (Some e) :: 'v event list) \<and>
   (\<forall>n. ProcessExit n \<notin> set (connect_callback opts (Some e) :: 'v event list))"
  by (simp add: connect_callback_def info_def)

theorem connection_failure_stops_witness:
  "verbose
     \<lparr>url_protocol = None, output_opt = [], all = False, timeout = 0,
      compress = False, verbose = True, debug = False, version = False, help_opt = False,
      colls = [''cats''], files = [], saveToFile = False, mergeCollections = True\<rparr> \<and>
   connect_callback
     \<lparr>url_protocol = None, output_opt = [], all = False, timeout = 0,
      compress = False, verbose = True, debug = False, version = False, help_opt = False,
      colls = [''cats''], files = [], saveToFile = False, mergeCollections = True\<rparr>
     (Some ''failed'') = ([ConsoleLog ConnectionFailed] :: nat event list)"
  using connection_failure_stops [where 'v = nat, of
     "\<lparr>url_protocol = None, output_opt = [], all = False, timeout = 0,
      compress = False, verbose = True, debug = False, version = False, help_opt = False,
      colls = [''cats''], files = [], saveToFile = False, mergeCollections = True\<rparr>"
     "''failed''"]
  by (simp add: info_def)

text \<open>
  C1 as stated fails: without \<^verbatim>\<open>verbose\<close> the callback does nothing at all, so the
  failure is not reported and \<^verbatim>\<open>process.exit\<close> is not called.
\<close>

theorem connection_failure_silent_counterexample:
  "connect_callback
     \<lparr>url_protocol = None, output_opt = [], all = False, timeout = 0,
      compress = False, verbose = False, debug = False, version = False, help_opt = False,
      colls = [''cats''], files = [], saveToFile = False, mergeCollections = True\<rparr>
     (Some ''failed'') = ([] :: nat event list)"
  by (simp add: connect_callback_def info_def)

subsection \<open>What is printed without the verbose option\<close>

lemma discover_quiet:
  assumes "\<not> verbose opts"
  shows "fst (discover cv c (opts, m) k) = []"
    and "discover cv c (opts, m) k = (evs, Inr (opts', m')) \<Longrightarrow> \<not> verbose opts'"
  using assms by (auto simp: discover_def info_def Let_def split: sum.splits if_splits)

lemma discover_all_quiet:
  "\<not> verbose opts \<Longrightarrow> discover_all cv c (opts, m) ks = (evs, r) \<Longrightarrow>
   evs = [] \<and> (\<forall>opts' m'. r = Inr (opts', m') \<longrightarrow> \<not> verbose opts')"
proof (induction ks arbitrary: opts m evs r)
  case Nil
  then show ?case by auto
next
  case (Cons k ks)
  obtain e1 r1 where d: "discover cv c (opts, m) k = (e1, r1)" by (cases "discover cv c (opts, m) k")
  with discover_quiet(1) [OF Cons.prems(1), of cv c m k] have e1: "e1 = []" by simp
  show ?case
  proof (cases r1)
    case (Inl err)
    with Cons.prems(2) d e1 show ?thesis by auto
  next
    case (Inr s1)
    obtain o1 m1 where s1: "s1 = (o1, m1)" by (cases s1)
    from d Inr s1 discover_quiet(2) [OF Cons.prems(1)] have q: "\<not> verbose o1" by blast
    obtain e2 r2 where r: "discover_all cv c (o1, m1) ks = (e2, r2)"
      by (cases "discover_all cv c (o1, m1) ks")
    from Cons.IH [OF q r] have "e2 = [] \<and> (\<forall>opts' m'. r2 = Inr (opts', m') \<longrightarrow> \<not> verbose opts')" .
    moreover from Cons.prems(2) d Inr s1 r e1 have "evs = e2" "r = r2" by auto
    ultimately show ?thesis by simp
  qed
qed

lemma finish_plain: "ConsoleLog m \<in> set (finish err) \<Longrightarrow> \<not> via_info m"
  by (auto simp: finish_def split: option.splits)

lemma write_done_plain:
  "write_done st err = (st', evs) \<Longrightarrow> ConsoleLog m \<in> set evs \<Longrightarrow> \<not> via_info m"
  by (auto simp: write_done_def dest: finish_plain split: option.splits if_splits)

lemma writes_done_plain:
  "writes_done st errs = (st', evs) \<Longrightarrow> ConsoleLog m \<in> set evs \<Longrightarrow> \<not> via_info m"
proof (induction errs arbitrary: st st' evs)
  case Nil
  then show ?case by simp
next
  case (Cons err errs)
  from Cons.prems show ?case
    by (auto split: prod.splits dest: write_done_plain Cons.IH)
qed

lemma writeData_plain:
  "\<not> verbose opts \<Longrightarrow> writeData opts c mapping p = Inr (evs, called) \<Longrightarrow>
   ConsoleLog m \<in> set evs \<Longrightarrow> \<not> via_info m"
  by (auto simp: writeData_def writeJSON_def writeLog_def info_def
      split: option.splits if_splits)

lemma issue_writes_plain:
  "\<not> verbose opts \<Longrightarrow> issue_writes opts c mapping st paths = (evs, r) \<Longrightarrow>
   ConsoleLog m \<in> set evs \<Longrightarrow> \<not> via_info m"
proof (induction paths arbitrary: st evs r)
  case Nil
  then show ?case by simp
next
  case (Cons p paths)
  from Cons.prems show ?case
    by (auto split: sum.splits prod.splits if_splits
        dest: writeData_plain write_done_plain Cons.IH)
qed

lemma async_map_writes_plain:
  "\<not> verbose opts \<Longrightarrow> async_map_writes opts c mapping paths = (evs, r) \<Longrightarrow>
   ConsoleLog m \<in> set evs \<Longrightarrow> \<not> via_info m"
  by (auto simp: async_map_writes_def Let_def dest: finish_plain issue_writes_plain
      split: if_splits)

lemma receivedLastDDPMessage_plain:
  assumes "\<not> verbose opts"
    and "ev \<in> set (fst (receivedLastDDPMessage cv c (opts, mapping)))"
    and "ev = ConsoleLog m"
  shows "\<not> via_info m"
proof -
  let ?d = "if all (fst (opts, mapping)) \<and> length (map fst c) > 0
            then discover_all cv c (opts, mapping) (map fst c) else ([], Inr (opts, mapping))"
  obtain e1 r1 where d: "?d = (e1, r1)" by (cases ?d)
  have q: "e1 = [] \<and> (\<forall>opts' m'. r1 = Inr (opts', m') \<longrightarrow> \<not> verbose opts')"
  proof (cases "all (fst (opts, mapping)) \<and> length (map fst c) > 0")
    case True
    with d have "discover_all cv c (opts, mapping) (map fst c) = (e1, r1)" by simp
    from discover_all_quiet [OF assms(1) this] show ?thesis .
  next
    case False
    with d assms(1) show ?thesis by auto
  qed
  show ?thesis
  proof (cases r1)
    case (Inl err)
    with d q assms(2) show ?thesis
      unfolding receivedLastDDPMessage_def by simp
  next
    case (Inr s1)
    obtain o1 m1 where s1: "s1 = (o1, m1)" by (cases s1)
    with q Inr have nv: "\<not> verbose o1" by simp
    obtain e3 r3 where w: "async_map_writes o1 c m1 (map fst m1) = (e3, r3)"
      by (cases "async_map_writes o1 c m1 (map fst m1)")
    from assms(2) d q Inr s1 w nv have "ev \<in> set e3"
      unfolding receivedLastDDPMessage_def
      by (auto simp: Let_def info_def split: sum.splits)
    with assms(3) have "ConsoleLog m \<in> set e3" by simp
    with nv w show ?thesis by (rule async_map_writes_plain)
  qed
qed

text \<open>
  C10, as the code has it.  Without \<^verbatim>\<open>verbose\<close>, \<^verbatim>\<open>info\<close> prints nothing, the
  callback of a failed connection prints nothing, and nothing that any handler prints is
  one of the texts that go through \<^verbatim>\<open>info\<close>: what is printed comes from
  \<^verbatim>\<open>error\<close> or from a direct call of \<^verbatim>\<open>log\<close>.
\<close>

theorem info_silenced:
  fixes collections :: "'v store" and opts :: options
  assumes "\<not> verbose opts"
  shows "(info opts m :: 'v event list) = [] \<and>
    (connect_callback opts (Some e) :: 'v event list) = [] \<and>
    (\<forall>ev \<in> set (connect_callback opts ddpErr)
            \<union> set (processSubscribtionResults opts collections results)
            \<union> set (fst (receivedLastDDPMessage cv collections (opts, mapping)))
            \<union> set (snd (writes_done st errs))
            \<union> set (on_message opts msg) \<union> set (on_socket_close opts)
            \<union> set (on_socket_error msg).
       \<forall>m'::'v message. ev = ConsoleLog m' \<longrightarrow> \<not> via_info m')"
proof (intro conjI ballI allI impI)
  show "(info opts m :: 'v event list) = []" using assms by (simp add: info_def)
  show "(connect_callback opts (Some e) :: 'v event list) = []"
    using assms by (simp add: connect_callback_def info_def)
next
  fix ev :: "'v event" and m' :: "'v message"
  assume ev: "ev \<in> set (connect_callback opts ddpErr)
            \<union> set (processSubscribtionResults opts collections results)
            \<union> set (fst (receivedLastDDPMessage cv collections (opts, mapping)))
            \<union> set (snd (writes_done st errs))
            \<union> set (on_message opts msg) \<union> set (on_socket_close opts)
            \<union> set (on_socket_error msg)"
    and m': "ev = ConsoleLog m'"
  from ev consider
      "ev \<in> set (connect_callback opts ddpErr)"
    | "ev \<in> set (processSubscribtionResults opts collections results)"
    | "ev \<in> set (fst (receivedLastDDPMessage cv collections (opts, mapping)))"
    | "ev \<in> set (snd (writes_done st errs))"
    | "ev \<in> set (on_message opts msg) \<union> set (on_socket_close opts) \<union> set (on_socket_error msg)"
    by blast
  then show "\<not> via_info m'"
  proof cases
    case 1
    with assms m' show ?thesis
      by (auto simp: connect_callback_def info_def waitForTimeout_def subscribeToCollection_def
          split: if_splits)
  next
    case 2
    with assms m' show ?thesis by (auto simp: processSubscribtionResults_events)
  next
    case 3
    with assms show ?thesis using m' by (rule receivedLastDDPMessage_plain)
  next
    case 4
    with m' have "ConsoleLog m' \<in> set (snd (writes_done st errs))" by simp
    with prod.collapse [of "writes_done st errs", symmetric] show ?thesis
      by (rule writes_done_plain)
  next
    case 5
    with assms m' show ?thesis
      by (auto simp: on_message_def on_socket_close_def on_socket_error_def split: if_splits)
  qed
qed

theorem info_silenced_witness:
  "\<not> verbose \<lparr>url_protocol = None, output_opt = [], all = False, timeout = 0,
      compress = False, verbose = False, debug = False, version = False, help_opt = False,
      colls = [''cats''], files = [], saveToFile = False, mergeCollections = True\<rparr> \<and>
   info \<lparr>url_protocol = None, output_opt = [], all = False, timeout = 0,
      compress = False, verbose = False, debug = False, version = False, help_opt = False,
      colls = [''cats''], files = [], saveToFile = False, mergeCollections = True\<rparr>
     ConnectionFailed = ([] :: nat event list) \<and>
   connect_callback \<lparr>url_protocol = None, output_opt = [], all = False, timeout = 0,
      compress = False, verbose = False, debug = False, version = False, help_opt = False,
      colls = [''cats''], files = [], saveToFile = False, mergeCollections = True\<rparr>
     None = ([DdpSubscribe ''cats''] :: nat event list)"
proof -
  let ?opts = "\<lparr>url_protocol = None, output_opt = [], all = False, timeout = 0,
      compress = False, verbose = False, debug = False, version = False, help_opt = False,
      colls = [''cats''], files = [], saveToFile = False, mergeCollections = True\<rparr>"
  have nv: "\<not> verbose ?opts" by simp
  from info_silenced [OF nv, where 'v = nat and m = ConnectionFailed]
  have "info ?opts ConnectionFailed = ([] :: nat event list)" by blast
  moreover have "connect_callback ?opts None = ([DdpSubscribe ''cats''] :: nat event list)"
    by (simp add: connect_callback_def subscribeToCollection_def info_def)
  ultimately show ?thesis by simp
qed

text \<open>
  C10 as stated fails: without \<^verbatim>\<open>verbose\<close>, a failed file write is reported by
  \<^verbatim>\<open>finish\<close> through \<^verbatim>\<open>log\<close>, not through \<^verbatim>\<open>error\<close>.
\<close>

theorem log_printed_when_not_verbose_counterexample:
  "\<not> verbose \<lparr>url_protocol = None, output_opt = [''out.json''], all = False, timeout = 0,
      compress = False, verbose = False, debug = False, version = False, help_opt = False,
      colls = [''cats''], files = [''out.json''], saveToFile = True,
      mergeCollections = False\<rparr> \<and>
   receivedLastDDPMessage plain_name_conversions [(''cats'', [(''id1'', 7::nat)])]
     (\<lparr>url_protocol = None, output_opt = [''out.json''], all = False, timeout = 0,
      compress = False, verbose = False, debug = False, version = False, help_opt = False,
      colls = [''cats''], files = [''out.json''], saveToFile = True,
      mergeCollections = False\<rparr>, [(''out.json'', [''cats''])])
   = ([FsWriteFile ''out.json'' [(''cats'', [(''id1'', 7)])] False],
      Inr ((\<lparr>url_protocol = None, output_opt = [''out.json''], all = False, timeout = 0,
      compress = False, verbose = False, debug = False, version = False, help_opt = False,
      colls = [''cats''], files = [''out.json''], saveToFile = True,
      mergeCollections = False\<rparr>, [(''out.json'', [''cats''])]),
        \<lparr>arr_length = 1, completed = 0, armed = True\<rparr>)) \<and>
   write_done \<lparr>arr_length = 1, completed = 0, armed = True\<rparr> (Some ''EACCES'')
   = (\<lparr>arr_length = 1, completed = 0, armed = False\<rparr>,
      [ConsoleLog SavingFailed, ConsoleLog (WriteError ''EACCES''), DdpClose :: nat event])"
  by (simp add: receivedLastDDPMessage_def async_map_writes_def writeData_def writeJSON_def
      info_def write_done_def finish_def Let_def)

subsection \<open>File writes\<close>

lemma issue_writes_files:
  assumes "saveToFile opts" and "\<forall>p\<in>set paths. map_of mapping p \<noteq> None"
  shows "issue_writes opts collections mapping st paths =
     (concat (map (\<lambda>p. info opts (WritingFile p) @
                [FsWriteFile p (buffer collections [] (the (map_of mapping p))) (compress opts)])
              paths), Inr st)"
  using assms(2)
proof (induction paths)
  case Nil
  show ?case by simp
next
  case (Cons p paths)
  then obtain cols where c: "map_of mapping p = Some cols" by auto
  with assms(1) have "writeData opts collections mapping p =
     Inr (info opts (WritingFile p) @ [FsWriteFile p (buffer collections [] cols) (compress opts)], False)"
    by (simp add: writeData_def writeJSON_def)
  with Cons c show ?case by simp
qed

lemma write_done_cases:
  "write_done st (Some e) = (st\<lparr>armed := False\<rparr>, if armed st then finish (Some e) else [])"
  "write_done st None =
     (st\<lparr>completed := completed st + 1\<rparr>,
      if completed st + 1 \<ge> arr_length st \<and> armed st then finish None else [])"
  by (simp_all add: write_done_def)

lemma writes_done_disarmed:
  "\<not> armed st \<Longrightarrow> snd (writes_done st errs) = []"
proof (induction errs arbitrary: st)
  case Nil
  show ?case by simp
next
  case (Cons err errs)
  show ?case
  proof (cases err)
    case None
    with Cons.prems Cons.IH [of "st\<lparr>completed := completed st + 1\<rparr>"] show ?thesis
      by (simp add: write_done_cases split: prod.splits)
  next
    case (Some e)
    with Cons.prems Cons.IH [of "st\<lparr>armed := False\<rparr>"] show ?thesis
      by (simp add: write_done_cases split: prod.splits)
  qed
qed

lemma writes_done_armed:
  assumes "armed st" and "completed st + length errs \<le> arr_length st" and "0 < arr_length st"
  shows "(snd (writes_done st errs) :: 'v event list) =
     (case List.map_filter (\<lambda>x. x) errs of
        [] \<Rightarrow> if completed st + length errs = arr_length st \<and> errs \<noteq> [] then [DdpClose] else []
      | e # es \<Rightarrow> [ConsoleLog SavingFailed, ConsoleLog (WriteError e), DdpClose])"
  using assms
proof (induction errs arbitrary: st)
  case Nil
  show ?case by (simp add: List.map_filter_simps)
next
  case (Cons err errs)
  show ?case
  proof (cases err)
    case (Some e)
    have "snd (writes_done (st\<lparr>armed := False\<rparr>) errs) = ([] :: 'v event list)"
      by (rule writes_done_disarmed) simp
    with Cons.prems(1) Some show ?thesis
      by (auto simp: write_done_cases finish_def List.map_filter_simps split: prod.splits)
  next
    case None
    let ?st = "st\<lparr>completed := completed st + 1\<rparr>"
    show ?thesis
    proof (cases "errs = []")
      case True
      with None Cons.prems show ?thesis
        by (auto simp: write_done_cases List.map_filter_simps finish_def)
    next
      case False
      with Cons.prems(2) have lt: "\<not> completed st + 1 \<ge> arr_length st"
        by (cases errs) auto
      have ih: "(snd (writes_done ?st errs) :: 'v event list) =
        (case List.map_filter (\<lambda>x. x) errs of
           [] \<Rightarrow> if completed ?st + length errs = arr_length ?st \<and> errs \<noteq> [] then [DdpClose] else []
         | e # es \<Rightarrow> [ConsoleLog SavingFailed, ConsoleLog (WriteError e), DdpClose])"
        using Cons.prems by (intro Cons.IH) simp_all
      from lt ih None show ?thesis
        by (auto simp: write_done_cases List.map_filter_simps False split: prod.splits)
    qed
  qed
qed

text \<open>
  C2, as the code has it.  When the writes go to files, a write is issued for every
  destination before any result is handled, so a failure cannot keep another destination
  from being written.  Of the results, the first failure is reported at once and the
  connection is closed then; later results change nothing.  Without a failure the
  connection is closed when the last write is over.
\<close>

theorem file_writes_issued_then_joined:
  fixes collections :: "'v store"
  assumes "saveToFile opts" and "mapping \<noteq> []"
  shows "async_map_writes opts collections mapping (map fst mapping) =
           (concat (map (\<lambda>p. info opts (WritingFile p) @
                      [FsWriteFile p (buffer collections [] (the (map_of mapping p)))
                         (compress opts)])
                    (map fst mapping)),
            Inr \<lparr>arr_length = length mapping, completed = 0, armed = True\<rparr>) \<and>
         (length errs \<le> length mapping \<longrightarrow>
            (snd (writes_done \<lparr>arr_length = length mapping, completed = 0, armed = True\<rparr> errs)
               :: 'v event list) =
            (case List.map_filter (\<lambda>x. x) errs of
               [] \<Rightarrow> if length errs = length mapping then [DdpClose] else []
             | e # es \<Rightarrow> [ConsoleLog SavingFailed, ConsoleLog (WriteError e), DdpClose]))"
proof (intro conjI impI)
  have "\<forall>p\<in>set (map fst mapping). map_of mapping p \<noteq> None"
    by (simp add: map_of_eq_None_iff)
  from issue_writes_files [OF assms(1) this] assms(2)
  show "async_map_writes opts collections mapping (map fst mapping) =
           (concat (map (\<lambda>p. info opts (WritingFile p) @
                      [FsWriteFile p (buffer collections [] (the (map_of mapping p)))
                         (compress opts)])
                    (map fst mapping)),
            Inr \<lparr>arr_length = length mapping, completed = 0, armed = True\<rparr>)"
    by (simp add: async_map_writes_def)
next
  assume le: "length errs \<le> length mapping"
  let ?st = "\<lparr>arr_length = length mapping, completed = 0, armed = True\<rparr>"
  have "(snd (writes_done ?st errs) :: 'v event list) =
     (case List.map_filter (\<lambda>x. x) errs of
        [] \<Rightarrow> if completed ?st + length errs = arr_length ?st \<and> errs \<noteq> [] then [DdpClose] else []
      | e # es \<Rightarrow> [ConsoleLog SavingFailed, ConsoleLog (WriteError e), DdpClose])"
    using le assms(2) by (intro writes_done_armed) simp_all
  moreover have "length errs = length mapping \<Longrightarrow> errs \<noteq> []"
    using assms(2) by auto
  ultimately show "(snd (writes_done ?st errs) :: 'v event list) =
            (case List.map_filter (\<lambda>x. x) errs of
               [] \<Rightarrow> if length errs = length mapping then [DdpClose] else []
             | e # es \<Rightarrow> [ConsoleLog SavingFailed, ConsoleLog (WriteError e), DdpClose])"
    by (auto split: list.splits)
qed

theorem file_writes_issued_then_joined_witness:
  "length [Some ''EACCES'', None] \<le> length [(''a.json'', [''cats'']), (''b.json'', [''dogs''])] \<and>
   async_map_writes
     \<lparr>url_protocol = None, output_opt = [''a.json'', ''b.json''], all = False, timeout = 0,
      compress = False, verbose = False, debug = False, version = False, help_opt = False,
      colls = [''cats'', ''dogs''], files = [''a.json'', ''b.json''], saveToFile = True,
      mergeCollections = False\<rparr>
     [(''cats'', [(''id1'', 7::nat)]), (''dogs'', [])]
     [(''a.json'', [''cats'']), (''b.json'', [''dogs''])] [''a.json'', ''b.json'']
   = ([FsWriteFile ''a.json'' [(''cats'', [(''id1'', 7)])] False,
       FsWriteFile ''b.json'' [(''dogs'', [])] False],
      Inr \<lparr>arr_length = 2, completed = 0, armed = True\<rparr>) \<and>
   snd (writes_done \<lparr>arr_length = 2, completed = 0, armed = True\<rparr> [Some ''EACCES'', None])
   = [ConsoleLog SavingFailed, ConsoleLog (WriteError ''EACCES''), DdpClose :: nat event]"
  using file_writes_issued_then_joined [where opts =
     "\<lparr>url_protocol = None, output_opt = [''a.json'', ''b.json''], all = False, timeout = 0,
      compress = False, verbose = False, debug = False, version = False, help_opt = False,
      colls = [''cats'', ''dogs''], files = [''a.json'', ''b.json''], saveToFile = True,
      mergeCollections = False\<rparr>"
     and mapping = "[(''a.json'', [''cats'']), (''b.json'', [''dogs''])]"
     and errs = "[Some ''EACCES'', None]"
     and collections = "[(''cats'', [(''id1'', 7::nat)]), (''dogs'', [])]"]
  by (simp add: info_def List.map_filter_simps write_done_def finish_def)

text \<open>
  C2 as stated fails: with two destinations, a failure of the first write to end is
  reported, and the connection closed, while the other write has not completed; and of
  two failures only the first is reported.
\<close>

theorem write_failure_reported_early_counterexample:
  "writes_done \<lparr>arr_length = 2, completed = 0, armed = True\<rparr> [Some ''EACCES'']
   = (\<lparr>arr_length = 2, completed = 0, armed = False\<rparr>,
      [ConsoleLog SavingFailed, ConsoleLog (WriteError ''EACCES''), DdpClose :: nat event]) \<and>
   writes_done \<lparr>arr_length = 2, completed = 0, armed = True\<rparr> [Some ''EACCES'', Some ''ENOSPC'']
   = (\<lparr>arr_length = 2, completed = 0, armed = False\<rparr>,
      [ConsoleLog SavingFailed, ConsoleLog (WriteError ''EACCES''), DdpClose :: nat event])"
  by (simp add: write_done_def finish_def)

subsection \<open>The idle-timeout detector\<close>

lemma run_detector_simps:
  "run_detector tmo d [] = d"
  "run_detector tmo d (e # es) = run_detector tmo (occur tmo d e) es"
  "run_detector tmo d (es @ es') = run_detector tmo (run_detector tmo d es) es'"
  by (simp_all add: run_detector_def)

lemma occur_fired:
  "pending d = None \<Longrightarrow>
   pending (occur tmo d e) = None \<and> completions (occur tmo d e) = completions d"
  by (cases e) simp_all

lemma run_detector_fired:
  "pending d = None \<Longrightarrow>
   pending (run_detector tmo d es) = None \<and>
   completions (run_detector tmo d es) = completions d"
proof (induction es arbitrary: d)
  case Nil
  then show ?case by (simp add: run_detector_simps)
next
  case (Cons e es)
  from occur_fired [OF Cons.prems, of tmo e] Cons.IH [of "occur tmo d e"]
  show ?case by (simp add: run_detector_simps)
qed

lemma occur_waiting_or_done:
  assumes "completions d = [] \<or>
           (\<exists>c. completions d = [c] \<and> pending d = None \<and> tmo < fst c - snd c)"
  shows "completions (occur tmo d e) = [] \<or>
         (\<exists>c. completions (occur tmo d e) = [c] \<and> pending (occur tmo d e) = None \<and>
              tmo < fst c - snd c)"
  using assms
  by (cases e) (auto simp: idle_check_def arm_def split: option.splits)

lemma run_detector_waiting_or_done:
  assumes "completions d = [] \<or>
           (\<exists>c. completions d = [c] \<and> pending d = None \<and> tmo < fst c - snd c)"
  shows "completions (run_detector tmo d es) = [] \<or>
         (\<exists>c. completions (run_detector tmo d es) = [c] \<and>
              pending (run_detector tmo d es) = None \<and> tmo < fst c - snd c)"
  using assms
proof (induction es arbitrary: d)
  case Nil
  then show ?case by (simp add: run_detector_simps)
next
  case (Cons e es)
  from Cons.IH [OF occur_waiting_or_done [OF Cons.prems]]
  show ?case by (simp add: run_detector_simps)
qed

lemma idle_phase_last:
  assumes "filter is_message es = []" and "lastMessageDate d = 200"
    and "\<forall>c\<in>set (completions d). 350 < fst c"
  shows "\<forall>c\<in>set (completions (run_detector 150 d es)). 350 < fst c"
  using assms
proof (induction es arbitrary: d)
  case Nil
  then show ?case by (simp add: run_detector_simps)
next
  case (Cons e es)
  from Cons.prems(1) obtain now where e: "e = TimerRuns now" and es: "filter is_message es = []"
    by (cases e) (auto split: if_splits)
  have "lastMessageDate (occur 150 d e) = 200"
    and "\<forall>c\<in>set (completions (occur 150 d e)). 350 < fst c"
    using Cons.prems(2,3) unfolding e
    by (auto simp: idle_check_def arm_def split: option.splits)
  from Cons.IH [OF es this] show ?case by (simp add: run_detector_simps)
qed

lemma idle_phase_middle:
  assumes "map at_time (filter is_message es) = [200]" and "sorted (map at_time es)"
    and "lastMessageDate d = 100"
    and "\<forall>c\<in>set (completions d). 350 < fst c"
  shows "\<forall>c\<in>set (completions (run_detector 150 d es)). 350 < fst c"
  using assms
proof (induction es arbitrary: d)
  case Nil
  then show ?case by simp
next
  case (Cons e es)
  show ?case
  proof (cases e)
    case (MessageArrives t)
    with Cons.prems(1) have "filter is_message es = []" by simp
    moreover from MessageArrives Cons.prems(1) have "t = 200" by simp
    with MessageArrives have "lastMessageDate (occur 150 d e) = 200" by simp
    moreover from MessageArrives Cons.prems(4)
    have "\<forall>c\<in>set (completions (occur 150 d e)). 350 < fst c" by simp
    ultimately show ?thesis
      using idle_phase_last [of es "occur 150 d e"] by (simp add: run_detector_simps)
  next
    case (TimerRuns now)
    with Cons.prems(1) have m: "map at_time (filter is_message es) = [200]" by simp
    then have "200 \<in> set (map at_time (filter is_message es))" by simp
    then have "200 \<in> at_time ` set es" by auto
    with Cons.prems(2) TimerRuns have "now \<le> 200" by auto
    with Cons.prems(3,4) TimerRuns
    have "lastMessageDate (occur 150 d e) = 100"
      and "\<forall>c\<in>set (completions (occur 150 d e)). 350 < fst c"
      by (auto simp: idle_check_def arm_def split: option.splits)
    moreover from Cons.prems(2) have "sorted (map at_time es)" by simp
    ultimately show ?thesis
      using Cons.IH [OF m] by (simp add: run_detector_simps)
  qed
qed

lemma idle_phase_first:
  assumes "map at_time (filter is_message es) = [100, 200]" and "sorted (map at_time es)"
    and "lastMessageDate d = 0"
    and "\<forall>c\<in>set (completions d). 350 < fst c"
  shows "\<forall>c\<in>set (completions (run_detector 150 d es)). 350 < fst c"
  using assms
proof (induction es arbitrary: d)
  case Nil
  then show ?case by simp
next
  case (Cons e es)
  from Cons.prems(2) have s: "sorted (map at_time es)" by simp
  show ?case
  proof (cases e)
    case (MessageArrives t)
    with Cons.prems(1) have "map at_time (filter is_message es) = [200]" and "t = 100"
      by simp_all
    moreover from \<open>t = 100\<close> MessageArrives have "lastMessageDate (occur 150 d e) = 100" by simp
    moreover from MessageArrives Cons.prems(4)
    have "\<forall>c\<in>set (completions (occur 150 d e)). 350 < fst c" by simp
    ultimately show ?thesis
      using idle_phase_middle [of es "occur 150 d e"] s by (simp add: run_detector_simps)
  next
    case (TimerRuns now)
    with Cons.prems(1) have m: "map at_time (filter is_message es) = [100, 200]" by simp
    then have "100 \<in> set (map at_time (filter is_message es))" by simp
    then have "100 \<in> at_time ` set es" by auto
    with Cons.prems(2) TimerRuns have "now \<le> 100" by auto
    with Cons.prems(3,4) TimerRuns
    have "lastMessageDate (occur 150 d e) = 0"
      and "\<forall>c\<in>set (completions (occur 150 d e)). 350 < fst c"
      by (auto simp: idle_check_def arm_def split: option.splits)
    with Cons.IH [OF m s] show ?thesis by (simp add: run_detector_simps)
  qed
qed

text \<open>
  C3.  Start with no call of the completion callback made.  Whatever messages arrive
  and whenever the timer runs: every call is made at a check whose gap
  \<open>now - lastMessageDate\<close> is greater than the timeout; there is at most one call; a
  check that runs while the detector waits calls the callback if its gap is greater than
  the timeout, and that call stays the only one, and otherwise schedules the next
  check.  With the last message at \<open>0\<close>, messages at \<open>100\<close> and \<open>200\<close> to come,
  events in the order of their times and a timeout of \<open>150\<close>, no call is made at or
  before \<open>350\<close>.
\<close>

theorem idle_detection:
  assumes "completions d0 = []"
  shows "(\<forall>c\<in>set (completions (run_detector tmo d0 es)). tmo < fst c - snd c) \<and>
     length (completions (run_detector tmo d0 es)) \<le> 1 \<and>
     (\<forall>pre now post due.
        es = pre @ TimerRuns now # post \<and>
        pending (run_detector tmo d0 pre) = Some due \<and> due \<le> now \<longrightarrow>
        (if tmo < now - lastMessageDate (run_detector tmo d0 pre)
         then completions (run_detector tmo d0 es) =
                [(now, lastMessageDate (run_detector tmo d0 pre))]
         else completions (run_detector tmo d0 (pre @ [TimerRuns now])) = [] \<and>
              pending (run_detector tmo d0 (pre @ [TimerRuns now])) = Some (now + tmo))) \<and>
     (tmo = 150 \<and> lastMessageDate d0 = 0 \<and> sorted (map at_time es) \<and>
      map at_time (filter is_message es) = [100, 200] \<longrightarrow>
        (\<forall>c\<in>set (completions (run_detector tmo d0 es)). 350 < fst c))"
proof (intro conjI allI impI)
  have inv: "completions (run_detector tmo d0 xs) = [] \<or>
         (\<exists>c. completions (run_detector tmo d0 xs) = [c] \<and>
              pending (run_detector tmo d0 xs) = None \<and> tmo < fst c - snd c)" for xs
    using assms by (intro run_detector_waiting_or_done) simp
  from inv [of es] show "\<forall>c\<in>set (completions (run_detector tmo d0 es)). tmo < fst c - snd c"
    by auto
  from inv [of es] show "length (completions (run_detector tmo d0 es)) \<le> 1"
    by auto
  show "if tmo < now - lastMessageDate (run_detector tmo d0 pre)
         then completions (run_detector tmo d0 es) =
                [(now, lastMessageDate (run_detector tmo d0 pre))]
         else completions (run_detector tmo d0 (pre @ [TimerRuns now])) = [] \<and>
              pending (run_detector tmo d0 (pre @ [TimerRuns now])) = Some (now + tmo)"
    if h: "es = pre @ TimerRuns now # post \<and>
        pending (run_detector tmo d0 pre) = Some due \<and> due \<le> now"
    for pre now post due
  proof -
    let ?d = "run_detector tmo d0 pre"
    from h inv [of pre] have none: "completions ?d = []" by auto
    have step: "run_detector tmo d0 (pre @ [TimerRuns now]) = idle_check tmo now ?d"
      using h by (simp add: run_detector_simps)
    show ?thesis
    proof (cases "tmo < now - lastMessageDate ?d")
      case True
      with step none have f: "pending (run_detector tmo d0 (pre @ [TimerRuns now])) = None"
        "completions (run_detector tmo d0 (pre @ [TimerRuns now])) = [(now, lastMessageDate ?d)]"
        by (simp_all add: idle_check_def)
      have "run_detector tmo d0 es =
            run_detector tmo (run_detector tmo d0 (pre @ [TimerRuns now])) post"
        using h by (simp add: run_detector_simps)
      with run_detector_fired [OF f(1), of tmo post] f(2) True show ?thesis by simp
    next
      case False
      with step none show ?thesis by (simp add: idle_check_def arm_def)
    qed
  qed
  show "\<forall>c\<in>set (completions (run_detector tmo d0 es)). 350 < fst c"
    if "tmo = 150 \<and> lastMessageDate d0 = 0 \<and> sorted (map at_time es) \<and>
      map at_time (filter is_message es) = [100, 200]"
    using that assms idle_phase_first [of es d0] by simp
qed

theorem idle_detection_witness:
  "completions \<lparr>lastMessageDate = 0, pending = Some 150, completions = []\<rparr> = [] \<and>
   sorted (map at_time [MessageArrives 100, TimerRuns 150, MessageArrives 200, TimerRuns 300,
      TimerRuns 450]) \<and>
   map at_time (filter is_message [MessageArrives 100, TimerRuns 150, MessageArrives 200,
      TimerRuns 300, TimerRuns 450]) = [100, 200] \<and>
   pending (run_detector 150 \<lparr>lastMessageDate = 0, pending = Some 150, completions = []\<rparr>
      [MessageArrives 100, TimerRuns 150, MessageArrives 200, TimerRuns 300]) = Some 450 \<and>
   run_detector 150 \<lparr>lastMessageDate = 0, pending = Some 150, completions = []\<rparr>
      [MessageArrives 100, TimerRuns 150, MessageArrives 200, TimerRuns 300, TimerRuns 450]
   = \<lparr>lastMessageDate = 200, pending = None, completions = [(450, 200)]\<rparr>"
  using idle_detection [of "\<lparr>lastMessageDate = 0, pending = Some 150, completions = []\<rparr>"
      150 "[MessageArrives 100, TimerRuns 150, MessageArrives 200, TimerRuns 300, TimerRuns 450]"]
  by (simp add: run_detector_def idle_check_def arm_def)

end
